theory Spec2Isabelle
  imports Main "HOL-Library.Word"
begin

text \<open>
  The type translator of tsickle (\<open>TypeTranslator\<close>, which translates TypeScript types to
  Closure types) as functions of HOL: \<open>translate\<close> and the methods it calls,
  \<open>symbolToString\<close> with the mangled prefix and the alias scope, and \<open>isBlacklisted\<close>.
\<close>

unbundle bit_operations_syntax

section \<open>Strings\<close>

text \<open>
  A JavaScript string is modelled as a \<^typ>\<open>string\<close> holding its UTF-8 bytes. The
  translator only concatenates strings, compares them for equality, tests a prefix
  and tests for emptiness; all of these agree on the UTF-16 code units and on the
  UTF-8 bytes of a well-formed string.
\<close>

definition startsWith :: "string \<Rightarrow> string \<Rightarrow> bool" where
  "startsWith s p = (take (length p) s = p)"

definition endsWith :: "string \<Rightarrow> string \<Rightarrow> bool" where
  "endsWith s p = (length p \<le> length s \<and> drop (length s - length p) s = p)"

text \<open>\<open>Array.prototype.join\<close> on an array of strings.\<close>

fun join :: "string \<Rightarrow> string list \<Rightarrow> string" where
  "join sep [] = []"
| "join sep [x] = x"
| "join sep (x # y # ys) = x @ sep @ join sep (y # ys)"

text \<open>\<open>Array.prototype.indexOf\<close>: the first index holding the element, as an offset
  from \<open>i\<close>; \<open>None\<close> stands for -1.\<close>

fun indexOfFrom :: "nat \<Rightarrow> string list \<Rightarrow> string \<Rightarrow> nat option" where
  "indexOfFrom i [] el = None"
| "indexOfFrom i (x # xs) el = (if x = el then Some i else indexOfFrom (Suc i) xs el)"

definition indexOf :: "string list \<Rightarrow> string \<Rightarrow> nat option" where
  "indexOf parts el = indexOfFrom 0 parts el"

text \<open>A string that may be \<open>undefined\<close>: truthiness and concatenation as JavaScript
  defines them.\<close>

definition truthy :: "string option \<Rightarrow> bool" where
  "truthy v = (case v of None \<Rightarrow> False | Some s \<Rightarrow> s \<noteq> [])"

definition toStr :: "string option \<Rightarrow> string" where
  "toStr v = (case v of None \<Rightarrow> ''undefined'' | Some s \<Rightarrow> s)"

definition isWordChar :: "char \<Rightarrow> bool" where
  "isWordChar c = (c \<in> set ''abcdefghijklmnopqrstuvwxyzABCDEFGHIJKLMNOPQRSTUVWXYZ0123456789_'')"

definition isNameStart :: "char \<Rightarrow> bool" where
  "isNameStart c = (c \<in> set ''abcdefghijklmnopqrstuvwxyzABCDEFGHIJKLMNOPQRSTUVWXYZ_'')"

text \<open>The regular expression \<open>/^[a-zA-Z_][a-zA-Z0-9_]*$/\<close>.\<close>

definition isValidClosurePropertyName :: "string \<Rightarrow> bool" where
  "isValidClosurePropertyName name =
     (case name of [] \<Rightarrow> False | c # cs \<Rightarrow> isNameStart c \<and> list_all isWordChar cs)"

text \<open>The regular expression \<open>/\blib\.(?:[^/]+\.)?d\.ts$/\<close>: at some word boundary the
  rest of the name is \<open>lib.\<close>, then optionally a non-empty run without a slash and a
  dot, then \<open>d.ts\<close>.\<close>

definition libTail :: "string \<Rightarrow> bool" where
  "libTail r =
     (startsWith r ''lib.'' \<and>
      (let r' = drop 4 r in
         r' = ''d.ts'' \<or>
         (5 < length r' \<and> endsWith r' ''.d.ts'' \<and>
          CHR ''/'' \<notin> set (take (length r' - 5) r'))))"

definition isBuiltinLibDTS :: "string \<Rightarrow> bool" where
  "isBuiltinLibDTS fileName =
     list_ex (\<lambda>i. (i = 0 \<or> \<not> isWordChar (fileName ! (i - 1))) \<and> libTail (drop i fileName))
       [0..<length fileName]"

section \<open>Flags\<close>

text \<open>
  The bit fields of the TypeScript compiler API, as the 32-bit integers JavaScript's
  \<open>&\<close> works on. The values are those of the declaration file of TypeScript 3.2 to 3.9
  (the versions that have \<open>TypeFlags.BigInt\<close> and end the public flags with
  \<open>Substitution\<close>); the library is not part of the repository.
\<close>

type_synonym flags = "32 word"

definition TypeFlags_Any :: flags where "TypeFlags_Any = 1"
definition TypeFlags_Unknown :: flags where "TypeFlags_Unknown = 2"
definition TypeFlags_String :: flags where "TypeFlags_String = 4"
definition TypeFlags_Number :: flags where "TypeFlags_Number = 8"
definition TypeFlags_Boolean :: flags where "TypeFlags_Boolean = 16"
definition TypeFlags_Enum :: flags where "TypeFlags_Enum = 32"
definition TypeFlags_BigInt :: flags where "TypeFlags_BigInt = 64"
definition TypeFlags_StringLiteral :: flags where "TypeFlags_StringLiteral = 128"
definition TypeFlags_NumberLiteral :: flags where "TypeFlags_NumberLiteral = 256"
definition TypeFlags_BooleanLiteral :: flags where "TypeFlags_BooleanLiteral = 512"
definition TypeFlags_EnumLiteral :: flags where "TypeFlags_EnumLiteral = 1024"
definition TypeFlags_ESSymbol :: flags where "TypeFlags_ESSymbol = 4096"
definition TypeFlags_UniqueESSymbol :: flags where "TypeFlags_UniqueESSymbol = 8192"
definition TypeFlags_Void :: flags where "TypeFlags_Void = 16384"
definition TypeFlags_Undefined :: flags where "TypeFlags_Undefined = 32768"
definition TypeFlags_Null :: flags where "TypeFlags_Null = 65536"
definition TypeFlags_Never :: flags where "TypeFlags_Never = 131072"
definition TypeFlags_TypeParameter :: flags where "TypeFlags_TypeParameter = 262144"
definition TypeFlags_Object :: flags where "TypeFlags_Object = 524288"
definition TypeFlags_Union :: flags where "TypeFlags_Union = 1048576"
definition TypeFlags_Intersection :: flags where "TypeFlags_Intersection = 2097152"
definition TypeFlags_Index :: flags where "TypeFlags_Index = 4194304"
definition TypeFlags_IndexedAccess :: flags where "TypeFlags_IndexedAccess = 8388608"
definition TypeFlags_Conditional :: flags where "TypeFlags_Conditional = 16777216"
definition TypeFlags_Substitution :: flags where "TypeFlags_Substitution = 33554432"
definition TypeFlags_NonPrimitive :: flags where "TypeFlags_NonPrimitive = 67108864"

definition ObjectFlags_Class :: flags where "ObjectFlags_Class = 1"
definition ObjectFlags_Interface :: flags where "ObjectFlags_Interface = 2"
definition ObjectFlags_Reference :: flags where "ObjectFlags_Reference = 4"
definition ObjectFlags_Tuple :: flags where "ObjectFlags_Tuple = 8"
definition ObjectFlags_Anonymous :: flags where "ObjectFlags_Anonymous = 16"

definition SymbolFlags_Function :: flags where "SymbolFlags_Function = 16"
definition SymbolFlags_Method :: flags where "SymbolFlags_Method = 8192"
definition SymbolFlags_TypeParameter :: flags where "SymbolFlags_TypeParameter = 262144"
definition SymbolFlags_Alias :: flags where "SymbolFlags_Alias = 2097152"
definition SymbolFlags_Value :: flags where "SymbolFlags_Value = 67220415"

definition ModifierFlags_Export :: flags where "ModifierFlags_Export = 1"
definition ModifierFlags_Ambient :: flags where "ModifierFlags_Ambient = 2"

text \<open>\<open>(a & b) !== 0\<close>, also the truthiness of \<open>a & b\<close>.\<close>

definition hasFlag :: "flags \<Rightarrow> flags \<Rightarrow> bool" where
  "hasFlag a b = (a AND b \<noteq> 0)"

section \<open>The data the translator reads\<close>

text \<open>
  Types and symbols are objects compared by identity (the recursion set and the alias
  scope are keyed by them, and types refer to each other in cycles), so they are
  natural-number identities into stores held by the environment. Syntax nodes are
  trees that are only walked towards the root, so a node carries its parent.
\<close>

type_synonym typeId = nat
type_synonym symbolId = nat

record sourceFile =
  fileName :: string
  isDeclarationFile :: bool
  isExternalModule :: bool

datatype syntaxKind = SourceFile | ModuleDeclaration | JSDocSignature | OtherKind

datatype nodeName = StringLiteral string | IdentifierName string

text \<open>
  A declaration node: its kind, the result of \<open>ts.getCombinedModifierFlags\<close>, its name,
  the results of \<open>getSourceFile()\<close> on the node and on \<open>ts.getOriginalNode\<close> of it, and
  its parent. Source files are compared by their record: a program holds one source
  file object per file name.
\<close>

datatype decl =
  Decl (kind: syntaxKind) (combinedModifierFlags: flags) (declName: "nodeName option")
       (getSourceFile: sourceFile) (originalSourceFile: sourceFile) (parent: "decl option")

record ident =
  idText :: string
  idSymbol :: symbolId

datatype entityName = Identifier ident | QualifiedName entityName ident

record parameterDeclaration =
  paramNameText :: string
  paramType :: "nat option"
  questionToken :: bool
  dotDotDotToken :: bool

text \<open>A signature declaration; a type parameter declaration is represented by its
  name node, the argument of \<open>getSymbolAtLocation\<close>.\<close>

record signatureDeclaration =
  sigKind :: syntaxKind
  typeParameters :: "nat list option"
  sigParameters :: "parameterDeclaration list"

record signature =
  sigDeclaration :: "signatureDeclaration option"
  parameters :: "symbolId list"
  getReturnType :: typeId

record tsSymbol =
  symFlags :: flags
  symName :: string
  declarations :: "decl list option"
  members :: "(string \<times> symbolId) list option"
  symParent :: "symbolId option"

text \<open>A type. \<open>target\<close> is read only on types flagged \<open>Reference\<close>, where the API's
  \<open>TypeReference\<close> makes it a required field; \<open>types\<close> only on union types.\<close>

record tsType =
  typeFlags :: flags
  objectFlags :: flags
  symbol :: "symbolId option"
  target :: typeId
  typeArguments :: "typeId list option"
  types :: "typeId list"
  getConstructSignatures :: "signature list"

datatype indexKind = IndexString | IndexNumber

text \<open>The queries of the type checker the translator uses (an external collaborator).
  \<open>getSignaturesOfType\<close> is only asked for call signatures.\<close>

record typeChecker =
  symbolToEntityName :: "symbolId \<Rightarrow> entityName option"
  getAliasedSymbol :: "symbolId \<Rightarrow> symbolId"
  getBaseTypeOfLiteralType :: "typeId \<Rightarrow> typeId"
  getSignaturesOfType :: "typeId \<Rightarrow> signature list"
  getTypeOfSymbolAtLocation :: "symbolId \<Rightarrow> typeId"
  getIndexTypeOfType :: "typeId \<Rightarrow> indexKind \<Rightarrow> typeId option"
  getReturnTypeOfSignature :: "signature \<Rightarrow> typeId"
  getSymbolAtLocation :: "nat \<Rightarrow> symbolId option"
  getTypeAtLocation :: "nat \<Rightarrow> typeId"

text \<open>
  The translator instance's read-only surroundings: the stores, the type checker, the
  node the type comes from, the externs switch, the path blacklist as normalized by
  the constructor, and the functions the source takes from elsewhere:
  \<open>moduleNameAsIdentifier\<close> of the annotator host; \<open>getIdentifierText\<close>, \<open>isAmbient\<close> and
  \<open>hasModifierFlag(d, Export)\<close> of \<open>transformer_util\<close>; \<open>path.normalize\<close>; and the
  \<open>ensureSymbolDeclared\<close> callback, which may register an alias. \<open>typeToDebugString\<close>
  and the reverse mapping \<open>ts.TypeFlags[...]\<close> only format the text of messages; they
  are parameters as well.
\<close>

type_synonym aliasScope = "symbolId \<rightharpoonup> string"

record env =
  typeOf :: "typeId \<Rightarrow> tsType"
  symbolOf :: "symbolId \<Rightarrow> tsSymbol"
  checker :: typeChecker
  node :: decl
  isForExterns :: bool
  pathBlackList :: "string set option"
  moduleNameAsIdentifier :: "string \<Rightarrow> string"
  getIdentifierText :: "ident \<Rightarrow> string"
  isAmbient :: "decl \<Rightarrow> bool"
  hasExportModifier :: "decl \<Rightarrow> bool"
  normalize :: "string \<Rightarrow> string"
  ensureSymbolDeclared :: "symbolId \<Rightarrow> aliasScope \<Rightarrow> aliasScope"
  typeToDebugString :: "typeId \<Rightarrow> string"
  typeFlagsName :: "flags \<Rightarrow> string"

text \<open>The mutable state: the recursion set, the alias scope, and the messages passed
  to \<open>warn\<close> (which callers overwrite to collect them).\<close>

record state =
  seenAnonymousTypes :: "typeId set"
  symbolsToAliasedNames :: aliasScope
  warnings :: "string list"

definition warn :: "string \<Rightarrow> state \<Rightarrow> state" where
  "warn msg st = st\<lparr>warnings := warnings st @ [msg]\<rparr>"

section \<open>Results\<close>

text \<open>
  A call returns a value and the new state, throws, or (in the fuel-indexed model of
  the recursion) runs out of fuel. \<open>ReferenceLoop\<close> and \<open>UnknownTypeFlags\<close> are the two
  \<open>throw\<close> statements, carrying the type they were raised on; the other two are the
  \<open>TypeError\<close>s of reading a property of \<open>undefined\<close>: \<open>paramDecls[i].questionToken\<close>
  with the index and the length of \<open>paramDecls\<close>, and \<open>type.flags\<close> when \<open>translate\<close> is
  handed \<open>typeArguments[0]\<close> of an empty array. \<open>OutOfFuel\<close> is no result of the
  program: a call that is \<open>OutOfFuel\<close> with every fuel recurses without end, and the
  program, whose call stack is finite and whose methods catch nothing, ends with a
  \<open>RangeError\<close>.
\<close>

datatype error =
  ReferenceLoop typeId
| UnknownTypeFlags typeId
| MissingParamDecl nat nat
| UndefinedType

datatype 'a result = OutOfFuel | Throw error | Ret 'a state

definition bind :: "'a result \<Rightarrow> ('a \<Rightarrow> state \<Rightarrow> 'b result) \<Rightarrow> 'b result" where
  "bind r f = (case r of OutOfFuel \<Rightarrow> OutOfFuel | Throw e \<Rightarrow> Throw e | Ret v st \<Rightarrow> f v st)"

section \<open>Helpers on declarations\<close>

definition isClosureProvidedType :: "tsSymbol \<Rightarrow> bool" where
  "isClosureProvidedType sy =
     (case declarations sy of
        None \<Rightarrow> False
      | Some ds \<Rightarrow> list_ex (\<lambda>n. isBuiltinLibDTS (fileName (getSourceFile n))) ds)"

text \<open>\<open>ts.isModuleDeclaration(parent) && ts.isStringLiteral(parent.name)\<close>, giving the
  text of the name.\<close>

definition ambientModuleName :: "decl \<Rightarrow> string option" where
  "ambientModuleName p =
     (if kind p = ModuleDeclaration
      then (case declName p of Some (StringLiteral s) \<Rightarrow> Some s | _ \<Rightarrow> None)
      else None)"

text \<open>The \<open>while (parent)\<close> loop of \<open>getContainingAmbientModuleDeclaration\<close>, from a node
  upwards; the result is the \<open>name.text\<close> of the module declaration found.\<close>

fun ambientModuleFrom :: "decl \<Rightarrow> string option" where
  "ambientModuleFrom (Decl k m n sf osf par) =
     (case ambientModuleName (Decl k m n sf osf par) of
        Some s \<Rightarrow> Some s
      | None \<Rightarrow> (case par of None \<Rightarrow> None | Some p \<Rightarrow> ambientModuleFrom p))"

fun getContainingAmbientModuleDeclaration :: "decl list \<Rightarrow> string option" where
  "getContainingAmbientModuleDeclaration [] = None"
| "getContainingAmbientModuleDeclaration (d # ds) =
     (case (case parent d of None \<Rightarrow> None | Some p \<Rightarrow> ambientModuleFrom p) of
        Some s \<Rightarrow> Some s
      | None \<Rightarrow> getContainingAmbientModuleDeclaration ds)"

fun isTopLevelExternal :: "decl list \<Rightarrow> bool" where
  "isTopLevelExternal [] = False"
| "isTopLevelExternal (d # ds) =
     (case parent d of
        None \<Rightarrow> isTopLevelExternal ds
      | Some p \<Rightarrow>
          if kind p = SourceFile \<and> isExternalModule (getSourceFile p) then True
          else isTopLevelExternal ds)"

definition isDeclaredInSameFile :: "decl \<Rightarrow> decl \<Rightarrow> bool" where
  "isDeclaredInSameFile a b = (originalSourceFile a = originalSourceFile b)"

text \<open>The loops at the top of \<open>translate\<close>: for one declaration, the walk from the
  declaration itself to the root, updating \<open>isAmbient\<close> and \<open>isInNamespace\<close>; for the
  list of declarations, the three flags \<open>(isAmbient, isInNamespace, isModule)\<close>.\<close>

fun ancestorScan :: "decl \<Rightarrow> bool \<times> bool \<Rightarrow> bool \<times> bool" where
  "ancestorScan (Decl k m n sf osf par) (amb, ns) =
     (let amb' = (if hasFlag m ModifierFlags_Ambient then True else amb);
          ns' = (if k = ModuleDeclaration then True else ns)
      in case par of None \<Rightarrow> (amb', ns') | Some p \<Rightarrow> ancestorScan p (amb', ns'))"

fun declScan :: "decl list \<Rightarrow> bool \<times> bool \<times> bool \<Rightarrow> bool \<times> bool \<times> bool" where
  "declScan [] acc = acc"
| "declScan (d # ds) (amb, ns, md) =
     (let md' = (if isExternalModule (getSourceFile d) then True else md);
          amb' = (if isDeclarationFile (getSourceFile d) then True else amb);
          (amb'', ns') = ancestorScan d (amb', ns)
      in declScan ds (amb'', ns', md'))"

section \<open>The path blacklist\<close>

definition isBlacklisted :: "env \<Rightarrow> string set option \<Rightarrow> tsSymbol \<Rightarrow> bool" where
  "isBlacklisted env bl sy =
     (case bl of
        None \<Rightarrow> False
      | Some B \<Rightarrow>
          (case declarations sy of
             None \<Rightarrow> False
           | Some ds \<Rightarrow> list_all (\<lambda>n. normalize env (fileName (getSourceFile n)) \<in> B) ds))"

definition isBlackListed :: "env \<Rightarrow> symbolId \<Rightarrow> bool" where
  "isBlackListed env s = isBlacklisted env (pathBlackList env) (symbolOf env s)"

section \<open>The alias scope\<close>

fun blacklistLoop :: "env \<Rightarrow> nat list \<Rightarrow> state \<Rightarrow> state" where
  "blacklistLoop env [] st = st"
| "blacklistLoop env (tpd # ds) st =
     (case getSymbolAtLocation (checker env) tpd of
        None \<Rightarrow> blacklistLoop env ds (warn ''type parameter with no symbol'' st)
      | Some sy \<Rightarrow>
          blacklistLoop env ds
            (st\<lparr>symbolsToAliasedNames := (symbolsToAliasedNames st)(sy \<mapsto> ''?'')\<rparr>))"

definition blacklistTypeParameters :: "env \<Rightarrow> nat list option \<Rightarrow> state \<Rightarrow> state" where
  "blacklistTypeParameters env decls st =
     (case decls of None \<Rightarrow> st | Some ds \<Rightarrow> blacklistLoop env ds st)"

section \<open>Symbols to names\<close>

definition maybeGetMangledNamePrefix :: "env \<Rightarrow> symbolId \<Rightarrow> string" where
  "maybeGetMangledNamePrefix env s =
     (case declarations (symbolOf env s) of
        None \<Rightarrow> []
      | Some ds \<Rightarrow>
          (let ambientModuleDeclaration =
                 (if \<not> isTopLevelExternal ds then getContainingAmbientModuleDeclaration ds
                  else None)
           in if \<not> isTopLevelExternal ds \<and> ambientModuleDeclaration = None then []
              else if \<not> isForExterns env \<and>
                      \<not> list_all (\<lambda>d. isDeclaredInSameFile (node env) d \<and> isAmbient env d \<and>
                                       hasExportModifier env d) ds
              then []
              else (case ambientModuleDeclaration of
                      Some nm \<Rightarrow> moduleNameAsIdentifier env nm @ ''.''
                    | None \<Rightarrow>
                        (case ds of
                           [] \<Rightarrow> []
                         | d # _ \<Rightarrow>
                             moduleNameAsIdentifier env (fileName (originalSourceFile d)) @
                             ''.''))))"

text \<open>The namespace prefix of Clutz: the character U+0CA0, an underscore, U+0CA0, then
  \<open>.clutz.\<close>.\<close>

definition clutzPrefix :: string where
  "clutzPrefix =
     [CHR 0xE0, CHR 0xB2, CHR 0xA0, CHR ''_'', CHR 0xE0, CHR 0xB2, CHR 0xA0] @ ''.clutz.''"

definition stripClutzNamespace :: "string \<Rightarrow> string" where
  "stripClutzNamespace name =
     (if startsWith name clutzPrefix then drop (length clutzPrefix) name else name)"

text \<open>The symbol an identifier of the entity name stands for, behind an import alias.\<close>

definition identSymbol :: "env \<Rightarrow> ident \<Rightarrow> symbolId" where
  "identSymbol env identifier =
     (let s = idSymbol identifier
      in if hasFlag (symFlags (symbolOf env s)) SymbolFlags_Alias
         then getAliasedSymbol (checker env) s else s)"

text \<open>The part of \<open>writeEntityWithSymbols\<close> after the identifier is chosen: the new
  value of \<open>str\<close>.\<close>

definition writeIdentifier :: "env \<Rightarrow> aliasScope \<Rightarrow> ident \<Rightarrow> string \<Rightarrow> string" where
  "writeIdentifier env al identifier str =
     (let s = identSymbol env identifier;
          alias = al s
      in if truthy alias then the alias
         else (let text = getIdentifierText env identifier;
                   text' = (if length str = 0 then maybeGetMangledNamePrefix env s @ text
                            else text)
               in str @ text'))"

fun writeEntityWithSymbols :: "env \<Rightarrow> aliasScope \<Rightarrow> entityName \<Rightarrow> string \<Rightarrow> string" where
  "writeEntityWithSymbols env al (Identifier i) str = writeIdentifier env al i str"
| "writeEntityWithSymbols env al (QualifiedName l r) str =
     writeIdentifier env al r (writeEntityWithSymbols env al l str @ ''.'')"

definition symbolToString :: "env \<Rightarrow> symbolId \<Rightarrow> state \<Rightarrow> string option \<times> state" where
  "symbolToString env sy st =
     (let st1 = (if \<not> isForExterns env \<and>
                    \<not> hasFlag (symFlags (symbolOf env sy)) SymbolFlags_TypeParameter
                 then st\<lparr>symbolsToAliasedNames :=
                           ensureSymbolDeclared env sy (symbolsToAliasedNames st)\<rparr>
                 else st)
      in case symbolToEntityName (checker env) sy of
           None \<Rightarrow> (None, st1)
         | Some name \<Rightarrow>
             (Some (stripClutzNamespace
                      (writeEntityWithSymbols env (symbolsToAliasedNames st1) name [])),
              st1))"

section \<open>The type translator\<close>

text \<open>
  Every cycle of calls among the translator's methods passes through \<open>translate\<close>, so
  each method is defined with the recursive \<open>this.translate\<close> as a parameter \<open>tr\<close>, and
  \<open>translate\<close> closes the recursion, indexed by fuel: a call that would recurse deeper
  than the fuel allows has the value \<open>OutOfFuel\<close>.
\<close>

type_synonym translator = "typeId \<Rightarrow> state \<Rightarrow> string result"

text \<open>\<open>ts.map(t => this.translate(t))\<close>, left to right.\<close>

fun translateAll :: "translator \<Rightarrow> typeId list \<Rightarrow> state \<Rightarrow> string list result" where
  "translateAll tr [] st = Ret [] st"
| "translateAll tr (t # ts) st =
     bind (tr t st) (\<lambda>s st1. bind (translateAll tr ts st1) (\<lambda>ss st2. Ret (s # ss) st2))"

text \<open>\<open>parts.filter((el, idx) => parts.indexOf(el) === idx)\<close>.\<close>

definition dedupParts :: "string list \<Rightarrow> string list" where
  "dedupParts parts =
     map fst (filter (\<lambda>(el, idx). indexOf parts el = Some idx) (zip parts [0..<length parts]))"

definition translateUnion :: "translator \<Rightarrow> env \<Rightarrow> typeId \<Rightarrow> state \<Rightarrow> string result" where
  "translateUnion tr env t st =
     bind (translateAll tr (types (typeOf env t)) st)
       (\<lambda>parts st1.
          let parts' = dedupParts parts
          in Ret (if length parts' = 1 then parts' ! 0 else ''('' @ join ''|'' parts' @ '')'') st1)"

definition translateEnumLiteral :: "env \<Rightarrow> typeId \<Rightarrow> state \<Rightarrow> string result" where
  "translateEnumLiteral env t st =
     (let enumLiteralBaseType = getBaseTypeOfLiteralType (checker env) t
      in case symbol (typeOf env enumLiteralBaseType) of
           None \<Rightarrow> Ret ''?'' (warn ''EnumLiteralType without a symbol'' st)
         | Some s \<Rightarrow>
             (case (if enumLiteralBaseType = t then symParent (symbolOf env s) else Some s) of
                None \<Rightarrow> Ret ''?'' st
              | Some s' \<Rightarrow>
                  (let (name, st1) = symbolToString env s' st
                   in if \<not> truthy name then Ret ''?'' st1 else Ret (''!'' @ the name) st1)))"

text \<open>The loop of \<open>convertParams\<close> from index \<open>i\<close>, over the parameters not yet visited.\<close>

fun convertParamsFrom ::
  "translator \<Rightarrow> env \<Rightarrow> parameterDeclaration list \<Rightarrow> nat \<Rightarrow> symbolId list \<Rightarrow> string list \<Rightarrow>
   state \<Rightarrow> string list result" where
  "convertParamsFrom tr env paramDecls i [] paramTypes st = Ret paramTypes st"
| "convertParamsFrom tr env paramDecls i (param # rest) paramTypes st =
     (if length paramDecls \<le> i then Throw (MissingParamDecl i (length paramDecls))
      else
        (let paramDecl = paramDecls ! i;
             optional = questionToken paramDecl;
             varArgs = dotDotDotToken paramDecl;
             paramType = getTypeOfSymbolAtLocation (checker env) param
         in if varArgs \<and> \<not> hasFlag (typeFlags (typeOf env paramType)) TypeFlags_Object then
              convertParamsFrom tr env paramDecls (Suc i) rest (paramTypes @ [''!Array<?>''])
                (warn ''var args type is not an object type'' st)
            else if varArgs \<and>
                    \<not> hasFlag (objectFlags (typeOf env paramType)) ObjectFlags_Reference then
              convertParamsFrom tr env paramDecls (Suc i) rest (paramTypes @ [''!Array<?>''])
                (warn ''unsupported var args type (not an array reference)'' st)
            else if varArgs \<and> typeArguments (typeOf env paramType) = None then
              convertParamsFrom tr env paramDecls (Suc i) rest paramTypes st
            else
              (case (if varArgs
                     then (case the (typeArguments (typeOf env paramType)) of
                             [] \<Rightarrow> None
                           | a # _ \<Rightarrow> Some a)
                     else Some paramType) of
                 None \<Rightarrow> Throw UndefinedType
               | Some paramType' \<Rightarrow>
                   bind (tr paramType' st)
                     (\<lambda>typeStr st1.
                        let typeStr1 = (if varArgs then ''...'' @ typeStr else typeStr);
                            typeStr2 = (if optional then typeStr1 @ ''='' else typeStr1)
                        in convertParamsFrom tr env paramDecls (Suc i) rest
                             (paramTypes @ [typeStr2]) st1))))"

definition convertParams ::
  "translator \<Rightarrow> env \<Rightarrow> signature \<Rightarrow> parameterDeclaration list \<Rightarrow> state \<Rightarrow> string list result"
  where
  "convertParams tr env sig paramDecls st =
     convertParamsFrom tr env paramDecls 0 (parameters sig) [] st"

text \<open>The handling of a leading \<open>this\<close> parameter in \<open>signatureToClosure\<close>: the text so
  far and the parameter declarations passed on.\<close>

definition thisParameter ::
  "translator \<Rightarrow> env \<Rightarrow> parameterDeclaration list \<Rightarrow> state \<Rightarrow>
   (string \<times> parameterDeclaration list) result" where
  "thisParameter tr env paramDecls st =
     (case paramDecls of
        [] \<Rightarrow> Ret (''function('', paramDecls) st
      | maybeThisParam # rest \<Rightarrow>
          if paramNameText maybeThisParam = ''this'' then
            (case paramType maybeThisParam of
               Some tn \<Rightarrow>
                 bind (tr (getTypeAtLocation (checker env) tn) st)
                   (\<lambda>thisType st1.
                      Ret (''function('' @ ''this: ('' @ thisType @ '')'' @
                             (if length paramDecls > 1 then '', '' else []), rest) st1)
             | None \<Rightarrow> Ret (''function('', rest) (warn ''this type without type'' st))
          else Ret (''function('', paramDecls) st)"

definition signatureToClosure ::
  "translator \<Rightarrow> env \<Rightarrow> signature \<Rightarrow> state \<Rightarrow> string result" where
  "signatureToClosure tr env sig st =
     (case sigDeclaration sig of
        None \<Rightarrow> Ret ''Function'' (warn ''signature without declaration'' st)
      | Some d \<Rightarrow>
          if sigKind d = JSDocSignature
          then Ret ''Function'' (warn ''signature with JSDoc declaration'' st)
          else
            bind (thisParameter tr env (sigParameters d)
                    (blacklistTypeParameters env (typeParameters d) st))
              (\<lambda>(typeStr, paramDecls) st1.
                 bind (convertParams tr env sig paramDecls st1)
                   (\<lambda>params st2.
                      let typeStr' = typeStr @ join '', '' params @ '')''
                      in bind (tr (getReturnTypeOfSignature (checker env) sig) st2)
                           (\<lambda>retType st3.
                              Ret (if retType \<noteq> [] then typeStr' @ '': '' @ retType
                                   else typeStr') st3))))"

text \<open>The construct-signature branch of \<open>translateAnonymousType\<close>, on \<open>ctors[0]\<close>.\<close>

definition translateConstructor ::
  "translator \<Rightarrow> env \<Rightarrow> signature \<Rightarrow> state \<Rightarrow> string result" where
  "translateConstructor tr env ctor st =
     (case sigDeclaration ctor of
        None \<Rightarrow>
          Ret ''?''
            (warn ''unhandled anonymous type with constructor signature but no declaration'' st)
      | Some d \<Rightarrow>
          if sigKind d = JSDocSignature
          then Ret ''?'' (warn ''unhandled JSDoc based constructor signature'' st)
          else
            bind (convertParams tr env ctor (sigParameters d)
                    (blacklistTypeParameters env (typeParameters d) st))
              (\<lambda>params st1.
                 let paramsStr = (if length params \<noteq> 0 then '', '' @ join '', '' params else [])
                 in bind (tr (getReturnType ctor) st1)
                      (\<lambda>constructedType st2.
                         Ret (''function(new: ('' @ constructedType @ '')'' @ paramsStr @ ''): ?'')
                           st2)))"

text \<open>The loop over \<open>type.symbol.members.keys()\<close>, carrying \<open>(callable, indexable, fields)\<close>;
  the members table is the list of its entries in iteration order.\<close>

fun fieldsLoop ::
  "translator \<Rightarrow> env \<Rightarrow> (string \<times> symbolId) list \<Rightarrow> bool \<times> bool \<times> string list \<Rightarrow> state \<Rightarrow>
   (bool \<times> bool \<times> string list) result" where
  "fieldsLoop tr env [] acc st = Ret acc st"
| "fieldsLoop tr env ((field, mem) # rest) (callable, indexable, flds) st =
     (if field = ''__call'' then fieldsLoop tr env rest (True, indexable, flds) st
      else if field = ''__index'' then fieldsLoop tr env rest (callable, True, flds) st
      else if \<not> isValidClosurePropertyName field then
        fieldsLoop tr env rest (callable, indexable, flds)
          (warn (''omitting inexpressible property name: '' @ field) st)
      else
        bind (tr (getTypeOfSymbolAtLocation (checker env) mem) st)
          (\<lambda>memberType st1.
             fieldsLoop tr env rest (callable, indexable, flds @ [field @ '': '' @ memberType])
               st1))"

text \<open>The end of \<open>translateAnonymousType\<close>, after the loop over the members.\<close>

definition anonymousShape ::
  "translator \<Rightarrow> env \<Rightarrow> typeId \<Rightarrow> bool \<Rightarrow> bool \<Rightarrow> string list \<Rightarrow> state \<Rightarrow> string result" where
  "anonymousShape tr env t callable indexable flds st =
     (let rest = (if \<not> callable \<and> \<not> indexable then Ret (''{'' @ join '', '' flds @ ''}'') st
                  else Ret ''?'' (warn ''unhandled anonymous type'' st))
      in if length flds = 0 then
           (if callable \<and> \<not> indexable then
              (let sigs = getSignaturesOfType (checker env) t
               in if length sigs = 1 then signatureToClosure tr env (sigs ! 0) st else rest)
            else if indexable \<and> \<not> callable then
              (case getIndexTypeOfType (checker env) t IndexString of
                 Some valType \<Rightarrow>
                   bind (tr valType st)
                     (\<lambda>v st1. Ret (''!Object<'' @ ''string'' @ '','' @ v @ ''>'') st1)
               | None \<Rightarrow>
                   (case getIndexTypeOfType (checker env) t IndexNumber of
                      Some valType \<Rightarrow>
                        bind (tr valType st)
                          (\<lambda>v st1. Ret (''!Object<'' @ ''number'' @ '','' @ v @ ''>'') st1)
                    | None \<Rightarrow> Ret ''!Object<?,?>'' (warn ''unknown index key type'' st)))
            else if \<not> callable \<and> \<not> indexable then Ret ''*'' st
            else rest)
         else rest)"

definition translateAnonymousType ::
  "translator \<Rightarrow> env \<Rightarrow> typeId \<Rightarrow> state \<Rightarrow> string result" where
  "translateAnonymousType tr env t st =
     (let st0 = st\<lparr>seenAnonymousTypes := insert t (seenAnonymousTypes st)\<rparr>;
          ty = typeOf env t
      in case (case symbol ty of None \<Rightarrow> None | Some s \<Rightarrow> members (symbolOf env s)) of
           None \<Rightarrow> Ret ''?'' (warn ''anonymous type has no symbol'' st0)
         | Some ms \<Rightarrow>
             (case getConstructSignatures ty of
                ctor # _ \<Rightarrow> translateConstructor tr env ctor st0
              | [] \<Rightarrow>
                  bind (fieldsLoop tr env ms (False, False, []) st0)
                    (\<lambda>(callable, indexable, flds) st1.
                       anonymousShape tr env t callable indexable flds st1)))"

text \<open>The \<open>Reference\<close> branch of \<open>translateObject\<close>.\<close>

definition translateReference ::
  "translator \<Rightarrow> env \<Rightarrow> typeId \<Rightarrow> state \<Rightarrow> string result" where
  "translateReference tr env t st =
     (let referenceType = typeOf env t
      in if hasFlag (objectFlags (typeOf env (target referenceType))) ObjectFlags_Tuple
         then Ret ''!Array<?>'' st
         else if target referenceType = t then Throw (ReferenceLoop t)
         else
           bind (tr (target referenceType) st)
             (\<lambda>typeStr st1.
                if typeStr = ''?'' then Ret ''?'' st1
                else (case typeArguments referenceType of
                        None \<Rightarrow> Ret typeStr st1
                      | Some args \<Rightarrow>
                          bind (translateAll tr args st1)
                            (\<lambda>params st2.
                               Ret (typeStr @ ''<'' @ join '', '' params @ ''>'') st2))))"

definition translateObject :: "translator \<Rightarrow> env \<Rightarrow> typeId \<Rightarrow> state \<Rightarrow> string result" where
  "translateObject tr env t st =
     (let ty = typeOf env t
      in if (case symbol ty of None \<Rightarrow> False | Some s \<Rightarrow> isBlackListed env s) then Ret ''?'' st
         else if hasFlag (objectFlags ty) ObjectFlags_Class then
           (case symbol ty of
              None \<Rightarrow> Ret ''?'' (warn ''class has no symbol'' st)
            | Some s \<Rightarrow>
                (let (name, st1) = symbolToString env s st
                 in if \<not> truthy name then Ret ''?'' st1 else Ret (''!'' @ the name) st1))
         else if hasFlag (objectFlags ty) ObjectFlags_Interface then
           (case symbol ty of
              None \<Rightarrow> Ret ''?'' (warn ''interface has no symbol'' st)
            | Some s \<Rightarrow>
                if hasFlag (symFlags (symbolOf env s)) SymbolFlags_Value \<and>
                   \<not> isClosureProvidedType (symbolOf env s)
                then Ret ''?''
                       (warn (''type/symbol conflict for '' @ symName (symbolOf env s) @
                              '', using {?} for now'') st)
                else (let (name, st1) = symbolToString env s st
                      in Ret (''!'' @ toStr name) st1))
         else if hasFlag (objectFlags ty) ObjectFlags_Reference then translateReference tr env t st
         else if hasFlag (objectFlags ty) ObjectFlags_Anonymous then
           (case symbol ty of
              None \<Rightarrow> Ret ''?'' (warn ''anonymous type has no symbol'' st)
            | Some s \<Rightarrow>
                if hasFlag (symFlags (symbolOf env s)) SymbolFlags_Function \<or>
                   hasFlag (symFlags (symbolOf env s)) SymbolFlags_Method
                then (let sigs = getSignaturesOfType (checker env) t
                      in if length sigs = 1 then signatureToClosure tr env (sigs ! 0) st
                         else Ret ''?''
                                (warn ''unhandled anonymous type with multiple call signatures'' st))
                else translateAnonymousType tr env t st)
         else Ret ''?'' (warn (''unhandled type '' @ typeToDebugString env t) st))"

text \<open>\<open>(lastFlag << 1) - 1\<close> with \<open>lastFlag = ts.TypeFlags.Substitution\<close>.\<close>

definition flagMask :: flags where
  "flagMask = push_bit 1 TypeFlags_Substitution - 1"

text \<open>The \<open>switch\<close> of \<open>translate\<close>.\<close>

definition dispatch :: "translator \<Rightarrow> env \<Rightarrow> typeId \<Rightarrow> state \<Rightarrow> string result" where
  "dispatch tr env t st =
     (let ty = typeOf env t; k = typeFlags ty AND flagMask
      in if k = TypeFlags_Any then Ret ''?'' st
         else if k = TypeFlags_Unknown then Ret ''*'' st
         else if k = TypeFlags_String \<or> k = TypeFlags_StringLiteral then Ret ''string'' st
         else if k = TypeFlags_Number \<or> k = TypeFlags_NumberLiteral then Ret ''number'' st
         else if k = TypeFlags_Boolean \<or> k = TypeFlags_BooleanLiteral then Ret ''boolean'' st
         else if k = TypeFlags_Enum then
           (case symbol ty of
              None \<Rightarrow> Ret ''?'' (warn ''EnumType without a symbol'' st)
            | Some s \<Rightarrow>
                (let (name, st1) = symbolToString env s st
                 in Ret (if truthy name then the name else ''?'') st1))
         else if k = TypeFlags_ESSymbol \<or> k = TypeFlags_UniqueESSymbol then Ret ''symbol'' st
         else if k = TypeFlags_Void then Ret ''void'' st
         else if k = TypeFlags_Undefined then Ret ''undefined'' st
         else if k = TypeFlags_BigInt then Ret ''bigintPlaceholder'' st
         else if k = TypeFlags_Null then Ret ''null'' st
         else if k = TypeFlags_Never then
           Ret ''?'' (warn (''should not emit a '' @ [CHR 0x27] @ ''never'' @ [CHR 0x27] @ '' type'') st)
         else if k = TypeFlags_TypeParameter then
           (case symbol ty of
              None \<Rightarrow> Ret ''?'' (warn ''TypeParameter without a symbol'' st)
            | Some s \<Rightarrow>
                (let pfx = (if \<not> hasFlag (symFlags (symbolOf env s)) SymbolFlags_TypeParameter
                               then ''!'' else []);
                     (name, st1) = symbolToString env s st
                 in if \<not> truthy name then Ret ''?'' st1 else Ret (pfx @ the name) st1))
         else if k = TypeFlags_Object then translateObject tr env t st
         else if k = TypeFlags_Union then translateUnion tr env t st
         else if k = TypeFlags_Conditional \<or> k = TypeFlags_Substitution then
           Ret ''?'' (warn ''emitting ? for conditional/substitution type'' st)
         else if k = TypeFlags_Intersection \<or> k = TypeFlags_Index \<or> k = TypeFlags_IndexedAccess
         then Ret ''?'' (warn (''unhandled type flags: '' @ typeFlagsName env (typeFlags ty)) st)
         else if hasFlag (typeFlags ty) TypeFlags_Union then translateUnion tr env t st
         else if hasFlag (typeFlags ty) TypeFlags_EnumLiteral then translateEnumLiteral env t st
         else Throw (UnknownTypeFlags t))"

text \<open>The body of \<open>translate\<close>: the early exits, then the \<open>switch\<close>.\<close>

definition translateBody :: "translator \<Rightarrow> env \<Rightarrow> typeId \<Rightarrow> state \<Rightarrow> string result" where
  "translateBody tr env t st =
     (let ty = typeOf env t
      in if typeFlags ty = TypeFlags_NonPrimitive then Ret ''!Object'' st
         else if t \<in> seenAnonymousTypes st then Ret ''?'' st
         else
           (let (isAmbient, isInNamespace, isModule) =
                  (case symbol ty of
                     None \<Rightarrow> (False, False, False)
                   | Some s \<Rightarrow>
                       declScan (case declarations (symbolOf env s) of None \<Rightarrow> [] | Some ds \<Rightarrow> ds)
                         (False, False, False))
            in if isInNamespace \<and> \<not> isAmbient then Ret ''?'' st
               else if isForExterns env \<and> isModule \<and> \<not> isAmbient then Ret ''?'' st
               else dispatch tr env t st))"

fun translate :: "nat \<Rightarrow> env \<Rightarrow> typeId \<Rightarrow> state \<Rightarrow> string result" where
  "translate 0 env t st = OutOfFuel"
| "translate (Suc n) env t st = translateBody (translate n env) env t st"

section \<open>Definitions used in the statements\<close>

subsection \<open>The path blacklist as the specification words it\<close>

text \<open>
  A symbol is blacklisted iff every declaration's source-file path, normalized, is in
  the path blacklist: a universal statement over the declarations, where an absent
  list has no declarations and an absent blacklist has no members.
\<close>

definition spec_isBlacklisted :: "env \<Rightarrow> string set option \<Rightarrow> tsSymbol \<Rightarrow> bool" where
  "spec_isBlacklisted env bl sy =
     list_all (\<lambda>n. normalize env (fileName (getSourceFile n)) \<in> (case bl of None \<Rightarrow> {} | Some B \<Rightarrow> B))
       (case declarations sy of None \<Rightarrow> [] | Some ds \<Rightarrow> ds)"

subsection \<open>Union text as the specification words it\<close>

text \<open>
  Deduplicate the resulting strings while preserving first-occurrence order:
  \<open>firstOccurrences earlier xs\<close> walks \<open>xs\<close> and keeps an element iff it is neither in
  \<open>earlier\<close> nor kept before. If the result has exactly one element, emit that element; otherwise
  emit \<open>(e1|e2|...)\<close>.
\<close>

fun firstOccurrences :: "string list \<Rightarrow> string list \<Rightarrow> string list" where
  "firstOccurrences earlier [] = []"
| "firstOccurrences earlier (x # xs) =
     (if x \<in> set earlier then firstOccurrences earlier xs
      else x # firstOccurrences (earlier @ [x]) xs)"

definition spec_unionText :: "string list \<Rightarrow> string" where
  "spec_unionText parts =
     (let ps = firstOccurrences [] parts
      in case ps of [e] \<Rightarrow> e | _ \<Rightarrow> ''('' @ join ''|'' ps @ '')'')"

subsection \<open>Entity names as the specification words them\<close>

text \<open>
  The identifiers of an entity name from left to right, and its rightmost identifier.
\<close>

fun segments :: "entityName \<Rightarrow> ident list" where
  "segments (Identifier i) = [i]"
| "segments (QualifiedName l r) = segments l @ [r]"

fun rightmost :: "entityName \<Rightarrow> ident" where
  "rightmost (Identifier i) = i"
| "rightmost (QualifiedName l r) = r"

text \<open>
  Walk the entity name left-to-right, accumulating text: the leftmost segment is
  its alias or its text behind the mangling prefix; every later segment is its alias
  (discarding the text so far) or the text so far, a dot and its text. The mangling
  prefix occurs once, at the leftmost segment.
\<close>

fun spec_appendSegments :: "env \<Rightarrow> aliasScope \<Rightarrow> string \<Rightarrow> ident list \<Rightarrow> string" where
  "spec_appendSegments env al acc [] = acc"
| "spec_appendSegments env al acc (i # rest) =
     spec_appendSegments env al
       (if truthy (al (identSymbol env i)) then the (al (identSymbol env i))
        else acc @ ''.'' @ getIdentifierText env i) rest"

definition spec_entityText :: "env \<Rightarrow> aliasScope \<Rightarrow> entityName \<Rightarrow> string" where
  "spec_entityText env al name =
     (case segments name of
        [] \<Rightarrow> []
      | i # rest \<Rightarrow>
          spec_appendSegments env al
            (if truthy (al (identSymbol env i)) then the (al (identSymbol env i))
             else maybeGetMangledNamePrefix env (identSymbol env i) @ getIdentifierText env i)
            rest)"

subsection \<open>The three flags of the early exits as the specification words them\<close>

text \<open>
  A declaration with its ancestors, itself first. \<open>is-ambient\<close>: some declaration is in
  a declaration file or has the ambient modifier somewhere on its ancestor chain;
  \<open>is-in-namespace\<close>: some declaration has a module declaration on its chain;
  \<open>is-module\<close>: some declaration's source file is an external module.
\<close>

fun ancestors :: "decl \<Rightarrow> decl list" where
  "ancestors (Decl k m n sf osf par) =
     Decl k m n sf osf par # (case par of None \<Rightarrow> [] | Some p \<Rightarrow> ancestors p)"

definition spec_isAmbient :: "decl list \<Rightarrow> bool" where
  "spec_isAmbient ds =
     list_ex (\<lambda>d. isDeclarationFile (getSourceFile d) \<or>
                  list_ex (\<lambda>c. hasFlag (combinedModifierFlags c) ModifierFlags_Ambient)
                    (ancestors d)) ds"

definition spec_isInNamespace :: "decl list \<Rightarrow> bool" where
  "spec_isInNamespace ds =
     list_ex (\<lambda>d. list_ex (\<lambda>c. kind c = ModuleDeclaration) (ancestors d)) ds"

definition spec_isModule :: "decl list \<Rightarrow> bool" where
  "spec_isModule ds = list_ex (\<lambda>d. isExternalModule (getSourceFile d)) ds"

text \<open>
  One of the two early exits on the symbol of a type fires: the type has a symbol, and
  its declarations are in a namespace and not ambient, or, in externs mode, in an
  external module and not ambient.
\<close>

definition earlyExit :: "env \<Rightarrow> typeId \<Rightarrow> bool" where
  "earlyExit env t =
     (case symbol (typeOf env t) of
        None \<Rightarrow> False
      | Some s \<Rightarrow>
          (let ds = (case declarations (symbolOf env s) of None \<Rightarrow> [] | Some ds \<Rightarrow> ds)
           in (spec_isInNamespace ds \<and> \<not> spec_isAmbient ds) \<or>
              (isForExterns env \<and> spec_isModule ds \<and> \<not> spec_isAmbient ds)))"

subsection \<open>Types as the type checker creates them\<close>

text \<open>
  The records of the model are more than the types of a program. The type checker
  creates one type whose flags are exactly \<open>NonPrimitive\<close>, the intrinsic type of the
  keyword \<open>object\<close>, and gives it no symbol (the comment before the first test of
  \<open>translate\<close>: \<open>NonPrimitive\<close> occurs on its own on the lower case \<open>object\<close> type).
\<close>

definition intrinsicObject :: "env \<Rightarrow> typeId \<Rightarrow> bool" where
  "intrinsicObject env t =
     (typeFlags (typeOf env t) = TypeFlags_NonPrimitive \<longrightarrow> symbol (typeOf env t) = None)"

text \<open>
  A union type that has a symbol is the type of an enum with several members (the
  comment in the \<open>default\<close> branch of \<open>translate\<close>: an enum typed value is a union type
  with the enum's members as its members). Its members are the enum literal types of
  the members of the enum, whose declarations lie inside the declaration of the enum:
  an early exit that fires on the symbol of the enum fires on the symbol of every
  member.
\<close>

definition enumUnion :: "env \<Rightarrow> typeId \<Rightarrow> bool" where
  "enumUnion env t =
     (case symbol (typeOf env t) of
        None \<Rightarrow> True
      | Some s \<Rightarrow>
          types (typeOf env t) \<noteq> [] \<and>
          list_all (\<lambda>m. hasFlag (typeFlags (typeOf env m)) TypeFlags_EnumLiteral \<and>
                         (earlyExit env t \<longrightarrow> earlyExit env m))
            (types (typeOf env t)))"

subsection \<open>Parameter conversion as the specification words it\<close>

text \<open>
  For a pair of a parameter declaration and a parameter symbol: the type of the
  parameter; whether the parameter is skipped (a rest parameter whose array reference
  has no type arguments); the type handed to \<open>translate\<close>; and what a string has to be
  to count as the entry of that parameter (\<open>!Array<?>\<close> for a rest parameter that is not
  an array reference, otherwise some result of \<open>translate\<close> on the argument, behind
  \<open>...\<close> for a rest parameter and before \<open>=\<close> for an optional one).
  \<open>spec_convertParams\<close> relates the output to the parameters that are not skipped, one
  entry each, in order.
\<close>

definition paramTypeOf :: "env \<Rightarrow> symbolId \<Rightarrow> tsType" where
  "paramTypeOf env p = typeOf env (getTypeOfSymbolAtLocation (checker env) p)"

definition paramSkipped :: "env \<Rightarrow> parameterDeclaration \<times> symbolId \<Rightarrow> bool" where
  "paramSkipped env dp =
     (dotDotDotToken (fst dp) \<and>
      hasFlag (typeFlags (paramTypeOf env (snd dp))) TypeFlags_Object \<and>
      hasFlag (objectFlags (paramTypeOf env (snd dp))) ObjectFlags_Reference \<and>
      typeArguments (paramTypeOf env (snd dp)) = None)"

definition paramArgument :: "env \<Rightarrow> parameterDeclaration \<times> symbolId \<Rightarrow> typeId" where
  "paramArgument env dp =
     (if dotDotDotToken (fst dp) then hd (the (typeArguments (paramTypeOf env (snd dp))))
      else getTypeOfSymbolAtLocation (checker env) (snd dp))"

definition paramEntry ::
  "translator \<Rightarrow> env \<Rightarrow> parameterDeclaration \<times> symbolId \<Rightarrow> string \<Rightarrow> bool" where
  "paramEntry tr env dp s =
     (if dotDotDotToken (fst dp) \<and>
         \<not> (hasFlag (typeFlags (paramTypeOf env (snd dp))) TypeFlags_Object \<and>
            hasFlag (objectFlags (paramTypeOf env (snd dp))) ObjectFlags_Reference)
      then s = ''!Array<?>''
      else (\<exists>v st0 st1. tr (paramArgument env dp) st0 = Ret v st1 \<and>
              s = (if dotDotDotToken (fst dp) then ''...'' @ v else v) @
                  (if questionToken (fst dp) then ''='' else [])))"

definition spec_convertParams ::
  "translator \<Rightarrow> env \<Rightarrow> parameterDeclaration list \<Rightarrow> symbolId list \<Rightarrow> string list \<Rightarrow> bool" where
  "spec_convertParams tr env paramDecls ps out =
     list_all2 (\<lambda>dp s. paramEntry tr env dp s)
       (filter (\<lambda>dp. \<not> paramSkipped env dp) (zip paramDecls ps)) out"

subsection \<open>Where errors are raised, and results that respect the recursion set\<close>

text \<open>
  A reference-flagged object type whose target is the type itself; kind bits that match
  no case of the \<open>switch\<close> and have neither the union nor the enum-literal bit. The
  parameter declarations \<open>signatureToClosure\<close> passes on (without a leading \<open>this\<close>), and
  the pairs of a signature and parameter declarations that \<open>convertParams\<close> is called
  on: the one call signature of a type with the parameters of its declaration, and the
  first construct signature of a type with the parameters of its declaration. For each
  error, the condition under which the code raises it: reading \<open>paramDecls[i]\<close> throws at
  \<open>i = paramDecls.length\<close> for such a pair with more parameters than declarations, and
  \<open>translate\<close> is handed \<open>undefined\<close> for such a pair with a rest parameter whose array of
  type arguments is empty. A result is \<open>good\<close> when a thrown error is raised at its site
  and a returned state has not lost a member of the recursion set and has gained object
  types only (and, with \<open>tot\<close>, when it is not \<open>OutOfFuel\<close>).
\<close>

definition selfReference :: "env \<Rightarrow> typeId \<Rightarrow> bool" where
  "selfReference env t =
     (typeFlags (typeOf env t) AND flagMask = TypeFlags_Object \<and>
      hasFlag (objectFlags (typeOf env t)) ObjectFlags_Reference \<and>
      target (typeOf env t) = t)"

definition handledKinds :: "flags list" where
  "handledKinds =
     [TypeFlags_Any, TypeFlags_Unknown, TypeFlags_String, TypeFlags_StringLiteral,
      TypeFlags_Number, TypeFlags_NumberLiteral, TypeFlags_Boolean, TypeFlags_BooleanLiteral,
      TypeFlags_Enum, TypeFlags_ESSymbol, TypeFlags_UniqueESSymbol, TypeFlags_Void,
      TypeFlags_Undefined, TypeFlags_BigInt, TypeFlags_Null, TypeFlags_Never,
      TypeFlags_TypeParameter, TypeFlags_Object, TypeFlags_Union, TypeFlags_Conditional,
      TypeFlags_Substitution, TypeFlags_Intersection, TypeFlags_Index,
      TypeFlags_IndexedAccess]"

definition unmatchedKind :: "env \<Rightarrow> typeId \<Rightarrow> bool" where
  "unmatchedKind env t =
     (typeFlags (typeOf env t) AND flagMask \<notin> set handledKinds \<and>
      \<not> hasFlag (typeFlags (typeOf env t)) TypeFlags_Union \<and>
      \<not> hasFlag (typeFlags (typeOf env t)) TypeFlags_EnumLiteral)"

definition declsAfterThis :: "parameterDeclaration list \<Rightarrow> parameterDeclaration list" where
  "declsAfterThis paramDecls =
     (case paramDecls of
        [] \<Rightarrow> []
      | p # rest \<Rightarrow> if paramNameText p = ''this'' then rest else paramDecls)"

definition paramSites :: "env \<Rightarrow> (signature \<times> parameterDeclaration list) set" where
  "paramSites env =
     {(sig, declsAfterThis (sigParameters d)) | u sig d.
        getSignaturesOfType (checker env) u = [sig] \<and> sigDeclaration sig = Some d \<and>
        sigKind d \<noteq> JSDocSignature} \<union>
     {(ctor, sigParameters d) | u ctor rest d.
        getConstructSignatures (typeOf env u) = ctor # rest \<and> sigDeclaration ctor = Some d \<and>
        sigKind d \<noteq> JSDocSignature}"

definition missingDeclSite :: "env \<Rightarrow> nat \<Rightarrow> bool" where
  "missingDeclSite env k =
     (\<exists>sig paramDecls. (sig, paramDecls) \<in> paramSites env \<and> length paramDecls = k \<and>
        k < length (parameters sig))"

definition emptyRestSite :: "env \<Rightarrow> bool" where
  "emptyRestSite env =
     (\<exists>sig paramDecls i. (sig, paramDecls) \<in> paramSites env \<and> i < length paramDecls \<and>
        i < length (parameters sig) \<and> dotDotDotToken (paramDecls ! i) \<and>
        typeArguments (paramTypeOf env (parameters sig ! i)) = Some [])"

fun errorSite :: "env \<Rightarrow> error \<Rightarrow> bool" where
  "errorSite env (ReferenceLoop t) = selfReference env t"
| "errorSite env (UnknownTypeFlags t) = unmatchedKind env t"
| "errorSite env (MissingParamDecl i k) = (i = k \<and> missingDeclSite env k)"
| "errorSite env UndefinedType = emptyRestSite env"

definition objectTypes :: "env \<Rightarrow> typeId set" where
  "objectTypes env = {u. typeFlags (typeOf env u) AND flagMask = TypeFlags_Object}"

definition good :: "bool \<Rightarrow> env \<Rightarrow> state \<Rightarrow> 'a result \<Rightarrow> bool" where
  "good tot env st r =
     (case r of
        OutOfFuel \<Rightarrow> \<not> tot
      | Throw e \<Rightarrow> errorSite env e
      | Ret v st' \<Rightarrow>
          seenAnonymousTypes st \<subseteq> seenAnonymousTypes st' \<and>
          seenAnonymousTypes st' \<subseteq> seenAnonymousTypes st \<union> objectTypes env)"

subsection \<open>The types a call descends into\<close>

text \<open>
  \<open>seenMono tr\<close>: the calls of \<open>tr\<close> only add to the recursion set. \<open>agreeOn C S tr tr'\<close>:
  two translators agree on the types of \<open>C\<close> in every state whose recursion set
  includes \<open>S\<close>.
\<close>

definition seenMono :: "translator \<Rightarrow> bool" where
  "seenMono tr =
     (\<forall>c s v s'. tr c s = Ret v s' \<longrightarrow> seenAnonymousTypes s \<subseteq> seenAnonymousTypes s')"

definition agreeOn :: "typeId set \<Rightarrow> typeId set \<Rightarrow> translator \<Rightarrow> translator \<Rightarrow> bool" where
  "agreeOn C S tr tr' = (\<forall>c\<in>C. \<forall>s. S \<subseteq> seenAnonymousTypes s \<longrightarrow> tr c s = tr' c s)"

text \<open>
  The types \<open>convertParams\<close>, the \<open>this\<close> parameter and \<open>signatureToClosure\<close> hand to
  \<open>translate\<close>, following the branches of the code.
\<close>

fun paramCalls :: "env \<Rightarrow> parameterDeclaration list \<Rightarrow> nat \<Rightarrow> symbolId list \<Rightarrow> typeId list" where
  "paramCalls env paramDecls i [] = []"
| "paramCalls env paramDecls i (p # rest) =
     (if length paramDecls \<le> i then []
      else (let pt = getTypeOfSymbolAtLocation (checker env) p
            in (if dotDotDotToken (paramDecls ! i)
                then (if hasFlag (typeFlags (typeOf env pt)) TypeFlags_Object \<and>
                         hasFlag (objectFlags (typeOf env pt)) ObjectFlags_Reference
                      then (case typeArguments (typeOf env pt) of
                              Some (a # as) \<Rightarrow> [a]
                            | _ \<Rightarrow> [])
                      else [])
                else [pt]) @
               paramCalls env paramDecls (Suc i) rest))"

definition thisCalls :: "env \<Rightarrow> parameterDeclaration list \<Rightarrow> typeId list" where
  "thisCalls env paramDecls =
     (case paramDecls of
        [] \<Rightarrow> []
      | p # rest \<Rightarrow>
          if paramNameText p = ''this''
          then (case paramType p of Some tn \<Rightarrow> [getTypeAtLocation (checker env) tn] | None \<Rightarrow> [])
          else [])"

definition sigCalls :: "env \<Rightarrow> signature \<Rightarrow> typeId list" where
  "sigCalls env sig =
     (case sigDeclaration sig of
        None \<Rightarrow> []
      | Some d \<Rightarrow>
          if sigKind d = JSDocSignature then []
          else thisCalls env (sigParameters d) @
               paramCalls env (declsAfterThis (sigParameters d)) 0 (parameters sig) @
               [getReturnTypeOfSignature (checker env) sig])"

text \<open>
  A type is \<open>guarded\<close> when \<open>translate\<close>, past its early exits, reaches
  \<open>translateAnonymousType\<close> on it, which enters it into the recursion set. The
  \<open>children\<close> of a type that is not guarded are the types \<open>translate\<close> is called on
  while translating it: the members of a union, the target and type arguments of a
  reference, the types of the single call signature of a function or method type.
\<close>

definition guarded :: "env \<Rightarrow> typeId \<Rightarrow> bool" where
  "guarded env t =
     (let ty = typeOf env t
      in typeFlags ty AND flagMask = TypeFlags_Object \<and>
         \<not> hasFlag (objectFlags ty) ObjectFlags_Class \<and>
         \<not> hasFlag (objectFlags ty) ObjectFlags_Interface \<and>
         \<not> hasFlag (objectFlags ty) ObjectFlags_Reference \<and>
         hasFlag (objectFlags ty) ObjectFlags_Anonymous \<and>
         (case symbol ty of
            None \<Rightarrow> False
          | Some s \<Rightarrow>
              \<not> isBlackListed env s \<and>
              \<not> hasFlag (symFlags (symbolOf env s)) SymbolFlags_Function \<and>
              \<not> hasFlag (symFlags (symbolOf env s)) SymbolFlags_Method))"

definition objectChildren :: "env \<Rightarrow> typeId \<Rightarrow> typeId list" where
  "objectChildren env t =
     (let ty = typeOf env t
      in if (case symbol ty of None \<Rightarrow> False | Some s \<Rightarrow> isBlackListed env s) then []
         else if hasFlag (objectFlags ty) ObjectFlags_Class then []
         else if hasFlag (objectFlags ty) ObjectFlags_Interface then []
         else if hasFlag (objectFlags ty) ObjectFlags_Reference then
           (if hasFlag (objectFlags (typeOf env (target ty))) ObjectFlags_Tuple then []
            else target ty # (case typeArguments ty of None \<Rightarrow> [] | Some args \<Rightarrow> args))
         else if hasFlag (objectFlags ty) ObjectFlags_Anonymous then
           (case symbol ty of
              None \<Rightarrow> []
            | Some s \<Rightarrow>
                if hasFlag (symFlags (symbolOf env s)) SymbolFlags_Function \<or>
                   hasFlag (symFlags (symbolOf env s)) SymbolFlags_Method
                then (let sigs = getSignaturesOfType (checker env) t
                      in if length sigs = 1 then sigCalls env (sigs ! 0) else [])
                else [])
         else [])"

definition children :: "env \<Rightarrow> typeId \<Rightarrow> typeId list" where
  "children env t =
     (let ty = typeOf env t
      in if typeFlags ty AND flagMask = TypeFlags_Object then objectChildren env t
         else if hasFlag (typeFlags ty) TypeFlags_Union then types ty
         else [])"

text \<open>
  Fuel that suffices for \<open>translate\<close> on \<open>t\<close> in state \<open>st\<close>, for a rank function bounded
  by \<open>R\<close>: one level of \<open>R + 1\<close> calls for every guarded type not yet in the recursion
  set, and the rank of \<open>t\<close>.
\<close>

definition fuelNeeded :: "env \<Rightarrow> (typeId \<Rightarrow> nat) \<Rightarrow> nat \<Rightarrow> state \<Rightarrow> typeId \<Rightarrow> nat" where
  "fuelNeeded env rank R st t =
     card ({u. guarded env u} - seenAnonymousTypes st) * Suc R + rank t + 1"

subsection \<open>Substrings\<close>

definition containsSubstring :: "string \<Rightarrow> string \<Rightarrow> bool" where
  "containsSubstring s sub = list_ex (\<lambda>i. startsWith (drop i s) sub) [0..<Suc (length s)]"

section \<open>Example inputs\<close>

text \<open>
  A type and a symbol with nothing set, a source file that is an external module, a
  type checker that names every symbol by its own name, and an environment with no
  blacklist, externs mode off and identity functions for the host's callbacks.
\<close>

definition plainType :: "flags \<Rightarrow> tsType" where
  "plainType fl =
     \<lparr>typeFlags = fl, objectFlags = 0, symbol = None, target = 0, typeArguments = None,
      types = [], getConstructSignatures = []\<rparr>"

definition plainSymbol :: "string \<Rightarrow> tsSymbol" where
  "plainSymbol nm =
     \<lparr>symFlags = 0, symName = nm, declarations = None, members = None, symParent = None\<rparr>"

definition noSymbols :: "symbolId \<Rightarrow> tsSymbol" where
  "noSymbols s = plainSymbol []"

definition exFile :: sourceFile where
  "exFile = \<lparr>fileName = ''a.ts'', isDeclarationFile = False, isExternalModule = True\<rparr>"

definition exChecker :: "(symbolId \<Rightarrow> tsSymbol) \<Rightarrow> typeChecker" where
  "exChecker sys =
     \<lparr>symbolToEntityName = (\<lambda>s. Some (Identifier \<lparr>idText = symName (sys s), idSymbol = s\<rparr>)),
      getAliasedSymbol = (\<lambda>s. s),
      getBaseTypeOfLiteralType = (\<lambda>t. t),
      getSignaturesOfType = (\<lambda>t. []),
      getTypeOfSymbolAtLocation = (\<lambda>s. 0),
      getIndexTypeOfType = (\<lambda>t k. None),
      getReturnTypeOfSignature = getReturnType,
      getSymbolAtLocation = (\<lambda>n. None),
      getTypeAtLocation = (\<lambda>n. 0)\<rparr>"

definition exEnv :: "(typeId \<Rightarrow> tsType) \<Rightarrow> (symbolId \<Rightarrow> tsSymbol) \<Rightarrow> env" where
  "exEnv tys sys =
     \<lparr>typeOf = tys, symbolOf = sys, checker = exChecker sys,
      node = Decl SourceFile 0 None exFile exFile None,
      isForExterns = False, pathBlackList = None,
      moduleNameAsIdentifier = (\<lambda>f. f), getIdentifierText = idText,
      isAmbient = (\<lambda>d. False), hasExportModifier = (\<lambda>d. False),
      normalize = (\<lambda>p. p), ensureSymbolDeclared = (\<lambda>s al. al),
      typeToDebugString = (\<lambda>t. []), typeFlagsName = (\<lambda>f. [])\<rparr>"

definition exState :: state where
  "exState = \<lparr>seenAnonymousTypes = {}, symbolsToAliasedNames = Map.empty, warnings = []\<rparr>"

text \<open>The union \<open>true | boolean | string | true\<close>.\<close>

definition unionTypes :: "typeId \<Rightarrow> tsType" where
  "unionTypes t =
     (if t = 0 then (plainType TypeFlags_Union)\<lparr>types := [1, 2, 3, 1]\<rparr>
      else if t = 1 then plainType TypeFlags_BooleanLiteral
      else if t = 2 then plainType TypeFlags_Boolean
      else plainType TypeFlags_String)"

text \<open>
  \<open>namespace ns { export enum E { A, B } }\<close>: type 0 is the enum type \<open>E\<close>, the union
  of the enum literal types 1 and 2 of its members.
\<close>

definition enumDecl :: decl where
  "enumDecl =
     Decl OtherKind 0 (Some (IdentifierName ''E'')) exFile exFile
       (Some (Decl ModuleDeclaration 0 (Some (IdentifierName ''ns'')) exFile exFile
          (Some (Decl SourceFile 0 None exFile exFile None))))"

definition nsEnumSymbols :: "symbolId \<Rightarrow> tsSymbol" where
  "nsEnumSymbols s =
     (if s = 1 then (plainSymbol ''E'')\<lparr>declarations := Some [enumDecl]\<rparr>
      else (plainSymbol ''A'')
             \<lparr>declarations :=
                Some [Decl OtherKind 0 (Some (IdentifierName ''A'')) exFile exFile
                        (Some enumDecl)],
              symParent := Some 1\<rparr>)"

definition nsEnumTypes :: "typeId \<Rightarrow> tsType" where
  "nsEnumTypes t =
     (if t = 0 then (plainType (TypeFlags_EnumLiteral OR TypeFlags_Union))
                      \<lparr>symbol := Some 1, types := [1, 2]\<rparr>
      else (plainType (TypeFlags_NumberLiteral OR TypeFlags_EnumLiteral))
             \<lparr>symbol := Some (Suc t)\<rparr>)"

definition nsEnumEnv :: env where
  "nsEnumEnv = exEnv nsEnumTypes nsEnumSymbols"

text \<open>A symbol \<open>Foo\<close> with an alias in scope.\<close>

definition aliasSymbols :: "symbolId \<Rightarrow> tsSymbol" where
  "aliasSymbols s = plainSymbol ''Foo''"

definition aliasState :: "string \<Rightarrow> state" where
  "aliasState A = exState\<lparr>symbolsToAliasedNames := [1 \<mapsto> A]\<rparr>"

text \<open>
  A class declared at the top level of a module, not ambient, seen in externs mode:
  as the symbol of a class type (type 0) and of a record whose flags are exactly
  \<open>NonPrimitive\<close> (type 1), which the type checker does not create.
\<close>

definition moduleDecl :: decl where
  "moduleDecl =
     Decl OtherKind 0 (Some (IdentifierName ''Foo'')) exFile exFile
       (Some (Decl SourceFile 0 None exFile exFile None))"

definition moduleSymbols :: "symbolId \<Rightarrow> tsSymbol" where
  "moduleSymbols s = (plainSymbol ''Foo'')\<lparr>declarations := Some [moduleDecl]\<rparr>"

definition externTypes :: "typeId \<Rightarrow> tsType" where
  "externTypes t =
     (if t = 0 then (plainType TypeFlags_Object)\<lparr>objectFlags := ObjectFlags_Class,
                                                   symbol := Some 1\<rparr>
      else (plainType TypeFlags_NonPrimitive)\<lparr>symbol := Some 1\<rparr>)"

definition externEnv :: env where
  "externEnv = (exEnv externTypes moduleSymbols)\<lparr>isForExterns := True\<rparr>"

text \<open>An enum type whose symbol is declared in a blacklisted file.\<close>

definition enumTypes :: "typeId \<Rightarrow> tsType" where
  "enumTypes t = (plainType TypeFlags_Enum)\<lparr>symbol := Some 1\<rparr>"

definition enumSymbols :: "symbolId \<Rightarrow> tsSymbol" where
  "enumSymbols s = (plainSymbol ''E'')\<lparr>declarations := Some [moduleDecl]\<rparr>"

definition blacklistEnv :: env where
  "blacklistEnv = (exEnv enumTypes enumSymbols)\<lparr>pathBlackList := Some {''a.ts''}\<rparr>"

text \<open>A signature with one parameter, and an environment in which every type is the
  \<open>object\<close> type.\<close>

definition objectEnv :: env where
  "objectEnv = exEnv (\<lambda>t. plainType TypeFlags_NonPrimitive) noSymbols"

definition plainParam :: parameterDeclaration where
  "plainParam =
     \<lparr>paramNameText = ''x'', paramType = None, questionToken = True, dotDotDotToken = False\<rparr>"

definition oneParamSig :: signature where
  "oneParamSig = \<lparr>sigDeclaration = None, parameters = [1], getReturnType = 0\<rparr>"

text \<open>
  A signature with one rest parameter, declared with \<open>...\<close>, whose type (type 0) is an
  array reference with an empty array of type arguments.
\<close>

definition restParam :: parameterDeclaration where
  "restParam =
     \<lparr>paramNameText = ''args'', paramType = None, questionToken = False,
      dotDotDotToken = True\<rparr>"

definition restSig :: signature where
  "restSig =
     \<lparr>sigDeclaration =
        Some \<lparr>sigKind = OtherKind, typeParameters = None, sigParameters = [restParam]\<rparr>,
      parameters = [1], getReturnType = 1\<rparr>"

definition restTypes :: "typeId \<Rightarrow> tsType" where
  "restTypes t =
     (if t = 0 then (plainType TypeFlags_Object)
                      \<lparr>objectFlags := ObjectFlags_Reference, target := 1,
                       typeArguments := Some []\<rparr>
      else plainType TypeFlags_Void)"

definition restEnv :: env where
  "restEnv = exEnv restTypes noSymbols"

text \<open>The type literal \<open>type T = {next: T}\<close>.\<close>

definition literalType :: "symbolId \<Rightarrow> tsType" where
  "literalType s =
     (plainType TypeFlags_Object)\<lparr>objectFlags := ObjectFlags_Anonymous, symbol := Some s\<rparr>"

definition recTypes :: "typeId \<Rightarrow> tsType" where
  "recTypes t = (if t = 0 then literalType 1 else plainType TypeFlags_String)"

definition recSymbols :: "symbolId \<Rightarrow> tsSymbol" where
  "recSymbols s =
     (if s = 1 then (plainSymbol ''__type'')\<lparr>members := Some [(''next'', 2)]\<rparr>
      else plainSymbol ''next'')"

definition recEnv :: env where
  "recEnv = exEnv recTypes recSymbols"

text \<open>
  \<open>declare function f(): typeof f\<close> and the type literal
  \<open>type T = {self: T, f: typeof f}\<close>: type 0 is \<open>T\<close>, type 1 is \<open>typeof f\<close>, whose symbol
  has the \<open>Function\<close> flag and whose one call signature returns type 1.
\<close>

definition loopSig :: signature where
  "loopSig =
     \<lparr>sigDeclaration =
        Some \<lparr>sigKind = OtherKind, typeParameters = None, sigParameters = []\<rparr>,
      parameters = [], getReturnType = 1\<rparr>"

definition loopTypes :: "typeId \<Rightarrow> tsType" where
  "loopTypes t = (if t = 0 then literalType 1 else literalType 4)"

definition loopSymbols :: "symbolId \<Rightarrow> tsSymbol" where
  "loopSymbols s =
     (if s = 1 then (plainSymbol ''__type'')\<lparr>members := Some [(''self'', 2), (''f'', 3)]\<rparr>
      else if s = 4 then (plainSymbol ''f'')\<lparr>symFlags := SymbolFlags_Function\<rparr>
      else plainSymbol ''member'')"

definition loopEnv :: env where
  "loopEnv =
     (exEnv loopTypes loopSymbols)
       \<lparr>checker := (exChecker loopSymbols)
          \<lparr>getTypeOfSymbolAtLocation := (\<lambda>s. if s = 2 then 0 else 1),
           getSignaturesOfType := (\<lambda>t. [loopSig])\<rparr>\<rparr>"

text \<open>A reference type that is its own target.\<close>

definition refTypes :: "typeId \<Rightarrow> tsType" where
  "refTypes t = (plainType TypeFlags_Object)\<lparr>objectFlags := ObjectFlags_Reference, target := 0\<rparr>"

definition refEnv :: env where
  "refEnv = exEnv refTypes noSymbols"

text \<open>A function type whose signature has one parameter and whose declaration has no
  parameter declaration.\<close>

definition missingSig :: signature where
  "missingSig =
     \<lparr>sigDeclaration =
        Some \<lparr>sigKind = OtherKind, typeParameters = None, sigParameters = []\<rparr>,
      parameters = [5], getReturnType = 1\<rparr>"

definition missingTypes :: "typeId \<Rightarrow> tsType" where
  "missingTypes t = (if t = 0 then literalType 4 else plainType TypeFlags_String)"

definition missingEnv :: env where
  "missingEnv =
     (exEnv missingTypes loopSymbols)
       \<lparr>checker := (exChecker loopSymbols)
          \<lparr>getTypeOfSymbolAtLocation := (\<lambda>s. 1),
           getSignaturesOfType := (\<lambda>t. [missingSig])\<rparr>\<rparr>"

text \<open>
  \<open>Foo<number>\<close> for a generic class \<open>Foo\<close>: type 0 is the reference, type 1 its
  target, type 2 \<open>number\<close>.
\<close>

definition genericTypes :: "typeId \<Rightarrow> tsType" where
  "genericTypes t =
     (if t = 0 then (plainType TypeFlags_Object)
                      \<lparr>objectFlags := ObjectFlags_Reference, symbol := Some 1, target := 1,
                       typeArguments := Some [2]\<rparr>
      else if t = 1 then (plainType TypeFlags_Object)
                      \<lparr>objectFlags := ObjectFlags_Class OR ObjectFlags_Reference,
                       symbol := Some 1, target := 1\<rparr>
      else plainType TypeFlags_Number)"

definition genericEnv :: env where
  "genericEnv = exEnv genericTypes aliasSymbols"

section \<open>Facts for evaluation\<close>

lemma flagMask_eq: "flagMask = 67108863"
  by (simp add: flagMask_def TypeFlags_Substitution_def)

lemmas typeFlag_defs =
  TypeFlags_Any_def TypeFlags_Unknown_def TypeFlags_String_def TypeFlags_StringLiteral_def
  TypeFlags_Number_def TypeFlags_NumberLiteral_def TypeFlags_Boolean_def
  TypeFlags_BooleanLiteral_def TypeFlags_Enum_def TypeFlags_ESSymbol_def
  TypeFlags_UniqueESSymbol_def TypeFlags_Void_def TypeFlags_Undefined_def TypeFlags_BigInt_def
  TypeFlags_Null_def TypeFlags_Never_def TypeFlags_TypeParameter_def TypeFlags_Object_def
  TypeFlags_Union_def TypeFlags_Conditional_def TypeFlags_Substitution_def
  TypeFlags_Intersection_def TypeFlags_Index_def TypeFlags_IndexedAccess_def
  TypeFlags_NonPrimitive_def TypeFlags_EnumLiteral_def

lemmas otherFlag_defs =
  ObjectFlags_Class_def ObjectFlags_Interface_def ObjectFlags_Reference_def
  ObjectFlags_Tuple_def ObjectFlags_Anonymous_def SymbolFlags_Function_def
  SymbolFlags_Method_def SymbolFlags_TypeParameter_def SymbolFlags_Alias_def
  SymbolFlags_Value_def ModifierFlags_Export_def ModifierFlags_Ambient_def

lemmas example_defs =
  exEnv_def exChecker_def exState_def exFile_def plainType_def plainSymbol_def noSymbols_def

lemmas translate_defs =
  translateBody_def dispatch_def translateObject_def translateReference_def
  translateAnonymousType_def anonymousShape_def translateUnion_def signatureToClosure_def
  thisParameter_def convertParams_def translateConstructor_def translateEnumLiteral_def
  symbolToString_def writeIdentifier_def identSymbol_def maybeGetMangledNamePrefix_def
  stripClutzNamespace_def startsWith_def clutzPrefix_def truthy_def toStr_def
  isBlackListed_def isBlacklisted_def blacklistTypeParameters_def hasFlag_def bind_def
  isValidClosurePropertyName_def isNameStart_def isWordChar_def warn_def Let_def dedupParts_def
  indexOf_def

section \<open>The path blacklist\<close>

text \<open>
  Claim C8, as the code has it: \<open>isBlacklisted\<close> returns true if and only if the
  blacklist is present, the declarations list of the symbol is present, and every
  declaration's normalized source-file path is a member of the blacklist.
\<close>

theorem isBlacklisted_iff:
  "isBlacklisted env bl sy \<longleftrightarrow>
     bl \<noteq> None \<and> declarations sy \<noteq> None \<and>
     list_all (\<lambda>n. normalize env (fileName (getSourceFile n)) \<in> the bl) (the (declarations sy))"
  by (auto simp: isBlacklisted_def split: option.splits)

text \<open>
  Claim C8 as stated fails: a symbol without a declarations list has no declaration
  outside the blacklist, and \<open>isBlacklisted\<close> returns false for it.
\<close>

theorem isBlacklisted_counterexample:
  "spec_isBlacklisted (exEnv (\<lambda>t. plainType 0) (\<lambda>s. plainSymbol ''S'')) (Some {''a.ts''}) (plainSymbol ''S'') \<and>
   \<not> isBlacklisted (exEnv (\<lambda>t. plainType 0) (\<lambda>s. plainSymbol ''S'')) (Some {''a.ts''}) (plainSymbol ''S'')"
  by (simp add: spec_isBlacklisted_def isBlacklisted_def plainSymbol_def)

text \<open>For an object-kind type, a blacklisted symbol gives \<open>?\<close> and the state is
  unchanged: no warning is recorded.\<close>

lemma masked_object_not_nonprimitive:
  "fl AND flagMask = TypeFlags_Object \<Longrightarrow> fl \<noteq> TypeFlags_NonPrimitive"
  by (auto simp: flagMask_def TypeFlags_Object_def TypeFlags_NonPrimitive_def
      TypeFlags_Substitution_def)

lemma dispatch_object:
  "typeFlags (typeOf env t) AND flagMask = TypeFlags_Object \<Longrightarrow>
   dispatch tr env t st = translateObject tr env t st"
  by (simp add: dispatch_def Let_def TypeFlags_Object_def TypeFlags_Any_def
      TypeFlags_Unknown_def TypeFlags_String_def TypeFlags_StringLiteral_def TypeFlags_Number_def
      TypeFlags_NumberLiteral_def TypeFlags_Boolean_def TypeFlags_BooleanLiteral_def
      TypeFlags_Enum_def TypeFlags_ESSymbol_def TypeFlags_UniqueESSymbol_def TypeFlags_Void_def
      TypeFlags_Undefined_def TypeFlags_BigInt_def TypeFlags_Null_def TypeFlags_Never_def
      TypeFlags_TypeParameter_def)

lemma translate_blacklisted_object:
  assumes "typeFlags (typeOf env t) AND flagMask = TypeFlags_Object"
    and "symbol (typeOf env t) = Some s"
    and "isBlackListed env s"
  shows "translate (Suc n) env t st = Ret ''?'' st"
proof -
  have "translateObject (translate n env) env t st = Ret ''?'' st"
    using assms(2,3) by (simp add: translateObject_def Let_def)
  then have "dispatch (translate n env) env t st = Ret ''?'' st"
    using dispatch_object[OF assms(1)] by simp
  then show ?thesis
    using masked_object_not_nonprimitive[OF assms(1)]
    by (auto simp: translateBody_def Let_def split: prod.splits)
qed

text \<open>
  Claim C9 says that every type whose symbol is blacklisted translates to \<open>?\<close>,
  whatever its kind. The code at an enum type whose symbol is blacklisted: \<open>translate\<close>
  returns the name of the enum.
\<close>

theorem translate_blacklisted_enum:
  "isBlackListed blacklistEnv 1 \<and> symbol (typeOf blacklistEnv 0) = Some 1 \<and>
   translate (Suc 0) blacklistEnv 0 exState = Ret ''E'' exState"
  by (simp add: blacklistEnv_def exEnv_def exChecker_def enumTypes_def enumSymbols_def
      plainType_def plainSymbol_def isBlackListed_def isBlacklisted_def moduleDecl_def exFile_def
      translateBody_def dispatch_def flagMask_def hasFlag_def symbolToString_def
      writeIdentifier_def identSymbol_def maybeGetMangledNamePrefix_def isDeclaredInSameFile_def
      truthy_def stripClutzNamespace_def startsWith_def clutzPrefix_def exState_def Let_def
      TypeFlags_Enum_def TypeFlags_NonPrimitive_def TypeFlags_Substitution_def TypeFlags_Any_def
      TypeFlags_Unknown_def TypeFlags_String_def TypeFlags_StringLiteral_def TypeFlags_Number_def
      TypeFlags_NumberLiteral_def TypeFlags_Boolean_def TypeFlags_BooleanLiteral_def
      SymbolFlags_TypeParameter_def SymbolFlags_Alias_def ModifierFlags_Ambient_def)

section \<open>Union translation\<close>

lemma indexOfFrom_append_notin:
  "el \<notin> set pre \<Longrightarrow> indexOfFrom i (pre @ xs) el = indexOfFrom (i + length pre) xs el"
  by (induction pre arbitrary: i) auto

lemma indexOfFrom_append_in:
  "el \<in> set pre \<Longrightarrow> \<exists>j<length pre. indexOfFrom i (pre @ xs) el = Some (i + j)"
proof (induction pre arbitrary: i)
  case Nil
  then show ?case by simp
next
  case (Cons a pre)
  show ?case
  proof (cases "a = el")
    case True
    then show ?thesis by auto
  next
    case False
    with Cons.prems have "el \<in> set pre" by simp
    from Cons.IH[OF this, of "Suc i"] obtain j where
      "j < length pre" "indexOfFrom (Suc i) (pre @ xs) el = Some (Suc i + j)" by blast
    with False show ?thesis by (intro exI[of _ "Suc j"]) simp
  qed
qed

lemma firstOccurrences_cong:
  "set a = set b \<Longrightarrow> firstOccurrences a xs = firstOccurrences b xs"
proof (induction xs arbitrary: a b)
  case Nil
  then show ?case by simp
next
  case (Cons x xs)
  from Cons.prems have "set (a @ [x]) = set (b @ [x])" by simp
  from Cons.IH[OF this] Cons.IH[OF Cons.prems] Cons.prems show ?case by simp
qed

lemma dedup_from:
  "map fst (filter (\<lambda>(el, idx). indexOfFrom 0 (pre @ xs) el = Some idx)
              (zip xs [length pre..<length pre + length xs])) =
   firstOccurrences pre xs"
proof (induction xs arbitrary: pre)
  case Nil
  then show ?case by simp
next
  case (Cons x xs)
  have zip_eq: "zip (x # xs) [length pre..<length pre + length (x # xs)] =
        (x, length pre) # zip xs [length (pre @ [x])..<length (pre @ [x]) + length xs]"
    by (subst upt_rec) simp
  have tail: "map fst (filter (\<lambda>(el, idx). indexOfFrom 0 (pre @ x # xs) el = Some idx)
              (zip xs [length (pre @ [x])..<length (pre @ [x]) + length xs])) =
        firstOccurrences (pre @ [x]) xs"
    using Cons.IH[of "pre @ [x]"] by simp
  show ?case
  proof (cases "x \<in> set pre")
    case True
    from indexOfFrom_append_in[OF True, of 0 "x # xs"] obtain j where
      j: "j < length pre" "indexOfFrom 0 (pre @ x # xs) x = Some j" by auto
    have same: "firstOccurrences (pre @ [x]) xs = firstOccurrences pre xs"
      using True by (intro firstOccurrences_cong) auto
    show ?thesis
      unfolding zip_eq using j True tail same by simp
  next
    case False
    have "indexOfFrom 0 (pre @ x # xs) x = Some (length pre)"
      using indexOfFrom_append_notin[OF False, of 0 "x # xs"] by simp
    then show ?thesis
      unfolding zip_eq using False tail by simp
  qed
qed

lemma dedupParts_firstOccurrences: "dedupParts parts = firstOccurrences [] parts"
  using dedup_from[of "[]" parts] by (simp add: dedupParts_def indexOf_def)

text \<open>
  When the translations of the members of a union type, in order, are \<open>parts\<close>,
  \<open>translateUnion\<close> returns these strings without their later duplicates: the one string
  that remains, or the strings that remain joined by \<open>|\<close> in one pair of parentheses.
\<close>

lemma translateUnion_text:
  assumes "translateAll tr (types (typeOf env t)) st = Ret parts st'"
  shows "translateUnion tr env t st = Ret (spec_unionText parts) st'"
proof -
  have "(if length ps = 1 then ps ! 0 else ''('' @ join ''|'' ps @ '')'') =
        (case ps of [e] \<Rightarrow> e | _ \<Rightarrow> ''('' @ join ''|'' ps @ '')'')" for ps :: "string list"
    by (cases ps) (auto split: list.splits)
  then show ?thesis
    using assms
    by (simp add: translateUnion_def bind_def spec_unionText_def dedupParts_firstOccurrences Let_def)
qed

text \<open>\<open>translate\<close> hands every type with the union bit to \<open>translateUnion\<close>, once past
  the early exits.\<close>

lemma dispatch_union:
  assumes "hasFlag (typeFlags (typeOf env t)) TypeFlags_Union"
  shows "dispatch tr env t st = translateUnion tr env t st"
proof -
  have "(typeFlags (typeOf env t) AND flagMask) AND TypeFlags_Union =
        typeFlags (typeOf env t) AND TypeFlags_Union"
    by (simp add: and.assoc flagMask_eq TypeFlags_Union_def)
  with assms have k: "(typeFlags (typeOf env t) AND flagMask) AND TypeFlags_Union \<noteq> 0"
    by (simp add: hasFlag_def)
  have ne: "typeFlags (typeOf env t) AND flagMask \<noteq> c" if "c AND TypeFlags_Union = 0" for c
    using k that by auto
  show ?thesis
    unfolding dispatch_def Let_def
    using assms
    by (simp add: ne typeFlag_defs)
qed

section \<open>Names of symbols\<close>

lemma spec_appendSegments_snoc:
  "spec_appendSegments env al acc (xs @ [r]) =
     (if truthy (al (identSymbol env r)) then the (al (identSymbol env r))
      else spec_appendSegments env al acc xs @ ''.'' @ getIdentifierText env r)"
  by (induction xs arbitrary: acc) simp_all

lemma segments_nonempty: "segments name \<noteq> []"
  by (cases name) simp_all

lemma writeEntity_spec: "writeEntityWithSymbols env al name [] = spec_entityText env al name"
proof (induction name)
  case (Identifier i)
  show ?case by (simp add: spec_entityText_def writeIdentifier_def Let_def)
next
  case (QualifiedName l r)
  obtain i rest where seg: "segments l = i # rest"
    using segments_nonempty[of l] by (cases "segments l") auto
  show ?case
    using QualifiedName.IH seg
    by (simp add: spec_entityText_def writeIdentifier_def Let_def spec_appendSegments_snoc)
qed

text \<open>
  Claim C6: the name \<open>symbolToString\<close> produces is the rendering of the segments of the
  entity name in which the mangled prefix is prepended to the leftmost segment only,
  and so at most once.
\<close>

theorem symbolToString_prefix_leftmost:
  "fst (symbolToString env s st) =
     map_option
       (\<lambda>name. stripClutzNamespace
          (spec_entityText env (symbolsToAliasedNames (snd (symbolToString env s st))) name))
       (symbolToEntityName (checker env) s)"
  by (simp add: symbolToString_def Let_def writeEntity_spec split: option.splits)

lemma writeEntity_alias:
  assumes "al (identSymbol env (rightmost name)) = Some A" and "A \<noteq> []"
  shows "writeEntityWithSymbols env al name str = A"
  using assms by (cases name) (simp_all add: writeIdentifier_def truthy_def Let_def)

text \<open>
  Claim C3, as the code has it: when the entity name of \<open>S\<close> resolves, its rightmost
  identifier stands for \<open>S\<close>, and the alias scope the lookup consults maps \<open>S\<close> to a
  non-empty \<open>A\<close>, \<open>symbolToString\<close> returns \<open>A\<close> without the Clutz namespace prefix, which
  is \<open>A\<close> itself when \<open>A\<close> does not start with that prefix.
\<close>

theorem symbolToString_alias:
  assumes "symbolToEntityName (checker env) s = Some name"
    and "identSymbol env (rightmost name) = s"
    and "symbolsToAliasedNames (snd (symbolToString env s st)) s = Some A"
    and "A \<noteq> []"
  shows "fst (symbolToString env s st) = Some (stripClutzNamespace A) \<and>
         (\<not> startsWith A clutzPrefix \<longrightarrow> fst (symbolToString env s st) = Some A)"
proof -
  let ?st1 = "snd (symbolToString env s st)"
  have "writeEntityWithSymbols env (symbolsToAliasedNames ?st1) name [] = A"
    using assms(2,3,4) by (intro writeEntity_alias) simp_all
  then have "fst (symbolToString env s st) = Some (stripClutzNamespace A)"
    using assms(1) by (simp add: symbolToString_def Let_def)
  then show ?thesis by (simp add: stripClutzNamespace_def)
qed

theorem symbolToString_alias_witness:
  "fst (symbolToString (exEnv unionTypes aliasSymbols) 1 (aliasState ''tsickle_m_1.Foo'')) =
     Some ''tsickle_m_1.Foo''"
proof -
  let ?env = "exEnv unionTypes aliasSymbols"
  let ?st = "aliasState ''tsickle_m_1.Foo''"
  have 1: "symbolToEntityName (checker ?env) 1 = Some (Identifier \<lparr>idText = ''Foo'', idSymbol = 1\<rparr>)"
    by (simp add: exEnv_def exChecker_def aliasSymbols_def plainSymbol_def)
  have 2: "identSymbol ?env (rightmost (Identifier \<lparr>idText = ''Foo'', idSymbol = 1\<rparr>)) = 1"
    by (simp add: identSymbol_def exEnv_def aliasSymbols_def plainSymbol_def hasFlag_def)
  have 3: "symbolsToAliasedNames (snd (symbolToString ?env 1 ?st)) 1 = Some ''tsickle_m_1.Foo''"
    by (simp add: symbolToString_def exEnv_def exChecker_def aliasState_def exState_def Let_def)
  have 4: "''tsickle_m_1.Foo'' \<noteq> []" by simp
  have 5: "\<not> startsWith ''tsickle_m_1.Foo'' clutzPrefix"
    by (simp add: startsWith_def clutzPrefix_def)
  from symbolToString_alias[OF 1 2 3 4] 5 show ?thesis by blast
qed

text \<open>
  Claim C3 as stated fails: an alias that starts with the Clutz namespace prefix is
  returned without it.
\<close>

theorem symbolToString_alias_counterexample:
  "symbolsToAliasedNames (aliasState (clutzPrefix @ ''Foo'')) 1 = Some (clutzPrefix @ ''Foo'') \<and>
   fst (symbolToString (exEnv unionTypes aliasSymbols) 1 (aliasState (clutzPrefix @ ''Foo''))) =
     Some ''Foo''"
  by (simp add: symbolToString_def exEnv_def exChecker_def aliasState_def exState_def Let_def
      aliasSymbols_def plainSymbol_def writeIdentifier_def identSymbol_def hasFlag_def truthy_def
      stripClutzNamespace_def startsWith_def clutzPrefix_def)

section \<open>Early exits\<close>

lemma ancestorScan_spec:
  "ancestorScan d (amb, ns) =
     (amb \<or> list_ex (\<lambda>c. hasFlag (combinedModifierFlags c) ModifierFlags_Ambient) (ancestors d),
      ns \<or> list_ex (\<lambda>c. kind c = ModuleDeclaration) (ancestors d))"
proof (induction d "(amb, ns)" arbitrary: amb ns rule: ancestorScan.induct)
  case (1 k m n sf osf par amb ns)
  show ?case
  proof (cases par)
    case None
    then show ?thesis by (auto simp: Let_def)
  next
    case (Some p)
    then show ?thesis
      using "1"[OF refl refl Some] by (auto simp: Let_def)
  qed
qed

lemma declScan_spec:
  "declScan ds (amb, ns, md) =
     (amb \<or> spec_isAmbient ds, ns \<or> spec_isInNamespace ds, md \<or> spec_isModule ds)"
proof (induction ds arbitrary: amb ns md)
  case Nil
  then show ?case by (simp add: spec_isAmbient_def spec_isInNamespace_def spec_isModule_def)
next
  case (Cons d ds)
  show ?case
    by (auto simp: Cons.IH ancestorScan_spec Let_def spec_isAmbient_def spec_isInNamespace_def
        spec_isModule_def)
qed

lemma translateBody_exits:
  assumes "typeFlags (typeOf env t) \<noteq> TypeFlags_NonPrimitive"
  shows "translateBody tr env t st =
           (if t \<in> seenAnonymousTypes st \<or> earlyExit env t then Ret ''?'' st
            else dispatch tr env t st)"
  using assms
  by (auto simp: translateBody_def earlyExit_def declScan_spec Let_def
      spec_isAmbient_def spec_isInNamespace_def spec_isModule_def split: option.splits)

lemma earlyExit_externs:
  assumes "isForExterns env"
    and "symbol (typeOf env t) = Some s"
    and "declarations (symbolOf env s) = Some ds"
    and "spec_isModule ds"
    and "\<not> spec_isAmbient ds"
  shows "earlyExit env t"
  using assms by (simp add: earlyExit_def)

text \<open>
  Claim C2: in externs mode, a type whose symbol has a declaration in an external
  module and no ambient declaration translates to \<open>?\<close>, with the state unchanged. The
  type is one the type checker creates: if its flags are exactly \<open>NonPrimitive\<close>, it has
  no symbol.
\<close>

theorem translate_externs:
  assumes "isForExterns env"
    and "symbol (typeOf env t) = Some s"
    and "declarations (symbolOf env s) = Some ds"
    and "spec_isModule ds"
    and "\<not> spec_isAmbient ds"
    and "intrinsicObject env t"
  shows "translate (Suc n) env t st = Ret ''?'' st"
proof -
  from assms(2,6) have "typeFlags (typeOf env t) \<noteq> TypeFlags_NonPrimitive"
    by (auto simp: intrinsicObject_def)
  from translateBody_exits[OF this] earlyExit_externs[OF assms(1-5)]
  show ?thesis by simp
qed

theorem translate_externs_witness:
  "translate (Suc 0) externEnv 0 exState = Ret ''?'' exState"
proof -
  have 1: "isForExterns externEnv" by (simp add: externEnv_def)
  have 2: "symbol (typeOf externEnv 0) = Some 1"
    by (simp add: externEnv_def exEnv_def externTypes_def plainType_def)
  have 3: "declarations (symbolOf externEnv 1) = Some [moduleDecl]"
    by (simp add: externEnv_def exEnv_def moduleSymbols_def)
  have 4: "spec_isModule [moduleDecl]"
    by (simp add: spec_isModule_def moduleDecl_def exFile_def)
  have 5: "\<not> spec_isAmbient [moduleDecl]"
    by (simp add: spec_isAmbient_def moduleDecl_def exFile_def hasFlag_def)
  have 6: "intrinsicObject externEnv 0"
    by (simp add: intrinsicObject_def externEnv_def exEnv_def externTypes_def plainType_def
        TypeFlags_Object_def TypeFlags_NonPrimitive_def)
  show ?thesis by (rule translate_externs[OF 1 2 3 4 5 6])
qed

text \<open>
  The test for the \<open>object\<close> type comes first: a record whose flags are exactly
  \<open>NonPrimitive\<close> and that has a symbol, which is no type of the type checker, translates
  to \<open>!Object\<close> before its symbol is looked at.
\<close>

lemma translate_nonPrimitive_first:
  "isForExterns externEnv \<and> symbol (typeOf externEnv 1) = Some 1 \<and>
   declarations (symbolOf externEnv 1) = Some [moduleDecl] \<and>
   spec_isModule [moduleDecl] \<and> \<not> spec_isAmbient [moduleDecl] \<and>
   \<not> intrinsicObject externEnv 1 \<and>
   translate (Suc 0) externEnv 1 exState = Ret ''!Object'' exState"
  by (simp add: externEnv_def exEnv_def externTypes_def plainType_def moduleSymbols_def
      spec_isModule_def spec_isAmbient_def moduleDecl_def exFile_def hasFlag_def translateBody_def
      intrinsicObject_def)

lemma translateBody_seen:
  assumes "t \<in> seenAnonymousTypes st"
    and "typeFlags (typeOf env t) \<noteq> TypeFlags_NonPrimitive"
  shows "translateBody tr env t st = Ret ''?'' st"
  using assms by (simp add: translateBody_def Let_def)

section \<open>Union types through translate\<close>

lemma union_kind:
  assumes "hasFlag f TypeFlags_Union" and "c AND TypeFlags_Union = 0"
  shows "f AND flagMask \<noteq> c"
proof -
  have "(f AND flagMask) AND TypeFlags_Union = f AND TypeFlags_Union"
    by (simp add: and.assoc flagMask_eq TypeFlags_Union_def)
  with assms show ?thesis by (auto simp: hasFlag_def)
qed

lemma union_not_object:
  "hasFlag (typeFlags (typeOf env t)) TypeFlags_Union \<Longrightarrow> t \<notin> objectTypes env"
  using union_kind[of "typeFlags (typeOf env t)" TypeFlags_Object]
  by (auto simp: objectTypes_def typeFlag_defs)

lemma enumLiteral_not_nonPrimitive:
  "hasFlag f TypeFlags_EnumLiteral \<Longrightarrow> f \<noteq> TypeFlags_NonPrimitive"
  by (auto simp: hasFlag_def typeFlag_defs)

lemma translateAll_exits:
  assumes "list_all (\<lambda>m. typeFlags (typeOf env m) \<noteq> TypeFlags_NonPrimitive \<and> earlyExit env m) ms"
  shows "translateAll (translate (Suc n) env) ms st = Ret (replicate (length ms) ''?'') st"
  using assms by (induction ms) (simp_all add: translateBody_exits bind_def)

lemma firstOccurrences_seen: "set xs \<subseteq> set pre \<Longrightarrow> firstOccurrences pre xs = []"
  by (induction xs arbitrary: pre) auto

lemma spec_unionText_replicate: "spec_unionText (replicate (Suc k) x) = x"
proof -
  have "firstOccurrences [x] (replicate k x) = []"
    by (rule firstOccurrences_seen) auto
  then show ?thesis by (simp add: spec_unionText_def)
qed

text \<open>
  On every record with the union bit that is not in the recursion set, \<open>translate\<close> is
  \<open>?\<close> when an early exit fires on its symbol, and the text of \<open>translateUnion\<close>
  otherwise.
\<close>

lemma translate_union_cases:
  assumes "hasFlag (typeFlags (typeOf env t)) TypeFlags_Union"
    and "t \<notin> seenAnonymousTypes st"
    and "translateAll (translate n env) (types (typeOf env t)) st = Ret parts st'"
  shows "translate (Suc n) env t st =
           (if earlyExit env t then Ret ''?'' st else Ret (spec_unionText parts) st')"
proof -
  have "typeFlags (typeOf env t) \<noteq> TypeFlags_NonPrimitive"
    using assms(1) by (auto simp: hasFlag_def typeFlag_defs)
  with assms(2) translateUnion_text[OF assms(3)] show ?thesis
    by (simp add: translateBody_exits dispatch_union[OF assms(1)])
qed

text \<open>
  Claim C4: for a union type, \<open>translate\<close> returns the translations of the members, in
  order, without their later duplicates: the one string that remains, or the strings
  that remain joined by \<open>|\<close> in one pair of parentheses. The union type is one the type
  checker creates (with a symbol it is an enum, whose members exit early when the enum
  does), and the state is one \<open>translate\<close> reaches: the recursion set holds object
  types only.
\<close>

theorem translate_union_spec:
  assumes "hasFlag (typeFlags (typeOf env t)) TypeFlags_Union"
    and "seenAnonymousTypes st \<subseteq> objectTypes env"
    and "enumUnion env t"
    and "translateAll (translate n env) (types (typeOf env t)) st = Ret parts st'"
  shows "translate (Suc n) env t st = Ret (spec_unionText parts) st'"
proof -
  let ?ms = "types (typeOf env t)"
  have np: "typeFlags (typeOf env t) \<noteq> TypeFlags_NonPrimitive"
    using assms(1) by (auto simp: hasFlag_def typeFlag_defs)
  have ns: "t \<notin> seenAnonymousTypes st"
    using union_not_object[OF assms(1)] assms(2) by blast
  show ?thesis
  proof (cases "earlyExit env t")
    case False
    with np ns have "translate (Suc n) env t st = translateUnion (translate n env) env t st"
      by (simp add: translateBody_exits dispatch_union[OF assms(1)])
    with translateUnion_text[OF assms(4)] show ?thesis by simp
  next
    case True
    then obtain s where s: "symbol (typeOf env t) = Some s"
      by (auto simp: earlyExit_def split: option.splits)
    with assms(3) True have ne: "?ms \<noteq> []"
      and all: "list_all (\<lambda>m. typeFlags (typeOf env m) \<noteq> TypeFlags_NonPrimitive \<and>
                             earlyExit env m) ?ms"
      by (auto simp: enumUnion_def list_all_iff enumLiteral_not_nonPrimitive)
    from ne assms(4) obtain k where n: "n = Suc k"
      by (cases n; cases ?ms) (simp_all add: bind_def)
    from translateAll_exits[OF all, of k st] assms(4) n
    have parts: "parts = replicate (length ?ms) ''?''" and st': "st' = st" by simp_all
    from ne obtain j where "length ?ms = Suc j" by (cases ?ms) auto
    with parts have "parts = replicate (Suc j) ''?''" by (simp only:)
    then have "spec_unionText parts = ''?''" by (simp only: spec_unionText_replicate)
    moreover from np True have "translate (Suc n) env t st = Ret ''?'' st"
      by (simp add: translateBody_exits)
    ultimately show ?thesis using st' by simp
  qed
qed

theorem translate_union_spec_witness:
  "translate (Suc (Suc 0)) (exEnv unionTypes noSymbols) 0 exState =
     Ret ''(boolean|string)'' exState \<and>
   earlyExit nsEnumEnv 0 \<and>
   translate (Suc (Suc 0)) nsEnumEnv 0 exState = Ret ''?'' exState"
proof -
  let ?env = "exEnv unionTypes noSymbols"
  have u: "hasFlag (typeFlags (typeOf ?env 0)) TypeFlags_Union"
    by (simp add: exEnv_def unionTypes_def plainType_def hasFlag_def TypeFlags_Union_def)
  have s: "seenAnonymousTypes exState \<subseteq> objectTypes env" for env
    by (simp add: exState_def)
  have e: "enumUnion ?env 0"
    by (simp add: enumUnion_def exEnv_def unionTypes_def plainType_def)
  have a: "translateAll (translate (Suc 0) ?env) (types (typeOf ?env 0)) exState =
     Ret [''boolean'', ''boolean'', ''string'', ''boolean''] exState"
    by (simp add: exEnv_def unionTypes_def plainType_def bind_def translateBody_def dispatch_def
        flagMask_eq TypeFlags_Union_def TypeFlags_BooleanLiteral_def TypeFlags_Boolean_def
        TypeFlags_String_def TypeFlags_NonPrimitive_def TypeFlags_Any_def TypeFlags_Unknown_def
        TypeFlags_StringLiteral_def TypeFlags_Number_def TypeFlags_NumberLiteral_def exState_def)
  have 1: "translate (Suc (Suc 0)) ?env 0 exState = Ret ''(boolean|string)'' exState"
    using translate_union_spec[OF u s e a] by (simp add: spec_unionText_def)
  have x: "earlyExit nsEnumEnv t" for t
    by (simp add: earlyExit_def nsEnumEnv_def nsEnumTypes_def nsEnumSymbols_def enumDecl_def
        exEnv_def plainType_def plainSymbol_def exFile_def spec_isInNamespace_def
        spec_isAmbient_def hasFlag_def ModifierFlags_Ambient_def)
  have u': "hasFlag (typeFlags (typeOf nsEnumEnv 0)) TypeFlags_Union"
    by (simp add: nsEnumEnv_def nsEnumTypes_def exEnv_def plainType_def hasFlag_def
        TypeFlags_Union_def TypeFlags_EnumLiteral_def)
  have sym: "symbol (typeOf nsEnumEnv 0) = Some 1"
    and tys: "types (typeOf nsEnumEnv 0) = [1, 2]"
    by (simp_all add: nsEnumEnv_def nsEnumTypes_def exEnv_def plainType_def)
  have lit: "hasFlag (typeFlags (typeOf nsEnumEnv 1)) TypeFlags_EnumLiteral"
    "hasFlag (typeFlags (typeOf nsEnumEnv 2)) TypeFlags_EnumLiteral"
    by (simp_all add: nsEnumEnv_def nsEnumTypes_def exEnv_def plainType_def hasFlag_def
        TypeFlags_NumberLiteral_def TypeFlags_EnumLiteral_def)
  have e': "enumUnion nsEnumEnv 0"
    using lit by (simp add: enumUnion_def sym tys x)
  have np: "typeFlags (typeOf nsEnumEnv t) \<noteq> TypeFlags_NonPrimitive" for t
    by (simp add: nsEnumEnv_def nsEnumTypes_def exEnv_def plainType_def typeFlag_defs)
  have a': "translateAll (translate (Suc 0) nsEnumEnv) (types (typeOf nsEnumEnv 0)) exState =
     Ret [''?'', ''?''] exState"
    by (simp add: tys translateBody_exits[OF np] x bind_def)
  have 2: "translate (Suc (Suc 0)) nsEnumEnv 0 exState = Ret ''?'' exState"
    using translate_union_spec[OF u' s e' a'] by (simp add: spec_unionText_def)
  from 1 x 2 show ?thesis by simp
qed

section \<open>Parameter conversion\<close>

lemma spec_convertParams_Nil: "spec_convertParams tr env ds [] []"
  by (simp add: spec_convertParams_def)

lemma spec_convertParams_skip:
  "paramSkipped env (d, p) \<Longrightarrow> spec_convertParams tr env ds ps out \<Longrightarrow>
   spec_convertParams tr env (d # ds) (p # ps) out"
  by (simp add: spec_convertParams_def)

lemma spec_convertParams_entry:
  "\<not> paramSkipped env (d, p) \<Longrightarrow> paramEntry tr env (d, p) s \<Longrightarrow>
   spec_convertParams tr env ds ps out \<Longrightarrow>
   spec_convertParams tr env (d # ds) (p # ps) (s # out)"
  by (simp add: spec_convertParams_def)

lemma convertParamsFrom_spec:
  assumes tr: "\<And>t st. \<exists>v st'. tr t st = Ret v st'"
    and ne: "list_all (\<lambda>p. typeArguments (paramTypeOf env p) \<noteq> Some []) ps"
    and i: "i \<le> length paramDecls"
  shows "(i + length ps \<le> length paramDecls \<longrightarrow>
            (\<exists>out st'. convertParamsFrom tr env paramDecls i ps acc st = Ret (acc @ out) st' \<and>
                        spec_convertParams tr env (drop i paramDecls) ps out)) \<and>
         (length paramDecls < i + length ps \<longrightarrow>
            convertParamsFrom tr env paramDecls i ps acc st =
              Throw (MissingParamDecl (length paramDecls) (length paramDecls)))"
  using ne i
proof (induction ps arbitrary: i acc st)
  case Nil
  then show ?case by (simp add: spec_convertParams_Nil)
next
  case (Cons p ps)
  from Cons.prems(1) have ne': "list_all (\<lambda>p. typeArguments (paramTypeOf env p) \<noteq> Some []) ps"
    and nep: "typeArguments (paramTypeOf env p) \<noteq> Some []" by simp_all
  show ?case
  proof (cases "i = length paramDecls")
    case True
    then show ?thesis by simp
  next
    case False
    with Cons.prems(2) have lt: "i < length paramDecls" by simp
    then have Si: "Suc i \<le> length paramDecls" by simp
    have dr: "drop i paramDecls = paramDecls ! i # drop (Suc i) paramDecls"
      using lt by (simp add: Cons_nth_drop_Suc)
    let ?d = "paramDecls ! i"
    let ?pt = "paramTypeOf env p"
    have step: "(i + length (p # ps) \<le> length paramDecls \<longrightarrow>
            (\<exists>out st'. convertParamsFrom tr env paramDecls (Suc i) ps (acc @ pre) st1 =
                          Ret (acc @ pre @ out) st' \<and>
                        spec_convertParams tr env (drop (Suc i) paramDecls) ps out)) \<and>
         (length paramDecls < i + length (p # ps) \<longrightarrow>
            convertParamsFrom tr env paramDecls (Suc i) ps (acc @ pre) st1 =
              Throw (MissingParamDecl (length paramDecls) (length paramDecls)))" for pre st1
      using Cons.IH[OF ne' Si, of "acc @ pre" st1] by simp
    consider (notObj) "dotDotDotToken ?d" "\<not> hasFlag (typeFlags ?pt) TypeFlags_Object"
      | (notRef) "dotDotDotToken ?d" "hasFlag (typeFlags ?pt) TypeFlags_Object"
          "\<not> hasFlag (objectFlags ?pt) ObjectFlags_Reference"
      | (skip) "dotDotDotToken ?d" "hasFlag (typeFlags ?pt) TypeFlags_Object"
          "hasFlag (objectFlags ?pt) ObjectFlags_Reference" "typeArguments ?pt = None"
      | (rest) a as where "dotDotDotToken ?d" "hasFlag (typeFlags ?pt) TypeFlags_Object"
          "hasFlag (objectFlags ?pt) ObjectFlags_Reference" "typeArguments ?pt = Some (a # as)"
      | (plain) "\<not> dotDotDotToken ?d"
      using nep by (cases "typeArguments ?pt"; cases "the (typeArguments ?pt)") auto
    then show ?thesis
    proof cases
      case notObj
      then have fn: "convertParamsFrom tr env paramDecls i (p # ps) acc st =
          convertParamsFrom tr env paramDecls (Suc i) ps (acc @ [''!Array<?>''])
            (warn ''var args type is not an object type'' st)"
        using lt by (simp add: paramTypeOf_def)
      have ns: "\<not> paramSkipped env (?d, p)" and en: "paramEntry tr env (?d, p) ''!Array<?>''"
        using notObj by (simp_all add: paramSkipped_def paramEntry_def)
      show ?thesis
        unfolding fn dr
        using step[of "[''!Array<?>'']" "warn ''var args type is not an object type'' st"]
          spec_convertParams_entry[OF ns en]
        by auto
    next
      case notRef
      then have fn: "convertParamsFrom tr env paramDecls i (p # ps) acc st =
          convertParamsFrom tr env paramDecls (Suc i) ps (acc @ [''!Array<?>''])
            (warn ''unsupported var args type (not an array reference)'' st)"
        using lt by (simp add: paramTypeOf_def)
      have ns: "\<not> paramSkipped env (?d, p)" and en: "paramEntry tr env (?d, p) ''!Array<?>''"
        using notRef by (simp_all add: paramSkipped_def paramEntry_def)
      show ?thesis
        unfolding fn dr
        using step[of "[''!Array<?>'']"
            "warn ''unsupported var args type (not an array reference)'' st"]
          spec_convertParams_entry[OF ns en]
        by auto
    next
      case skip
      then have fn: "convertParamsFrom tr env paramDecls i (p # ps) acc st =
          convertParamsFrom tr env paramDecls (Suc i) ps acc st"
        using lt by (simp add: paramTypeOf_def)
      have sk: "paramSkipped env (?d, p)"
        using skip by (simp add: paramSkipped_def)
      show ?thesis
        unfolding fn dr
        using step[of "[]" st] spec_convertParams_skip[OF sk]
        by auto
    next
      case (rest a as)
      from tr[of a st] obtain v st1 where st1: "tr a st = Ret v st1" by blast
      let ?s = "(''...'' @ v) @ (if questionToken ?d then ''='' else [])"
      have fn: "convertParamsFrom tr env paramDecls i (p # ps) acc st =
          convertParamsFrom tr env paramDecls (Suc i) ps (acc @ [?s]) st1"
        using lt rest st1 by (simp add: paramTypeOf_def bind_def Let_def)
      have ns: "\<not> paramSkipped env (?d, p)"
        using rest by (simp add: paramSkipped_def)
      have en: "paramEntry tr env (?d, p) ?s"
        using rest st1 by (auto simp: paramEntry_def paramArgument_def)
      show ?thesis
        unfolding fn dr
        using step[of "[?s]" st1] spec_convertParams_entry[OF ns en]
        by auto
    next
      case plain
      let ?t = "getTypeOfSymbolAtLocation (checker env) p"
      from tr[of ?t st] obtain v st1 where st1: "tr ?t st = Ret v st1" by blast
      let ?s = "v @ (if questionToken ?d then ''='' else [])"
      have fn: "convertParamsFrom tr env paramDecls i (p # ps) acc st =
          convertParamsFrom tr env paramDecls (Suc i) ps (acc @ [?s]) st1"
        using lt plain st1 by (simp add: paramTypeOf_def bind_def Let_def)
      have ns: "\<not> paramSkipped env (?d, p)"
        using plain by (simp add: paramSkipped_def)
      have en: "paramEntry tr env (?d, p) ?s"
        using plain st1 by (auto simp: paramEntry_def paramArgument_def)
      show ?thesis
        unfolding fn dr
        using step[of "[?s]" st1] spec_convertParams_entry[OF ns en]
        by auto
    qed
  qed
qed

lemma convertParams_total:
  assumes "\<And>t st. \<exists>v st'. tr t st = Ret v st'"
    and "list_all (\<lambda>p. typeArguments (paramTypeOf env p) \<noteq> Some []) (parameters sig)"
  shows "(length (parameters sig) \<le> length paramDecls \<longrightarrow>
            (\<exists>out st'. convertParams tr env sig paramDecls st = Ret out st' \<and>
                        spec_convertParams tr env paramDecls (parameters sig) out)) \<and>
         (length paramDecls < length (parameters sig) \<longrightarrow>
            convertParams tr env sig paramDecls st =
              Throw (MissingParamDecl (length paramDecls) (length paramDecls)))"
  using convertParamsFrom_spec[where i = 0 and acc = "[]" and paramDecls = paramDecls
      and st = st, OF assms]
  by (simp add: convertParams_def)

lemma bind_RetD:
  "bind r f = Ret res st' \<Longrightarrow> \<exists>v s. r = Ret v s \<and> f v s = Ret res st'"
  by (cases r) (simp_all add: bind_def)

lemma convertParamsFrom_returns:
  assumes "convertParamsFrom tr env paramDecls i ps acc st = Ret res st'"
    and "i \<le> length paramDecls"
  shows "i + length ps \<le> length paramDecls \<and>
         (\<exists>out. res = acc @ out \<and> spec_convertParams tr env (drop i paramDecls) ps out)"
  using assms
proof (induction ps arbitrary: i acc st)
  case Nil
  then show ?case by (simp add: spec_convertParams_Nil)
next
  case (Cons p ps)
  from Cons.prems(1) have lt: "i < length paramDecls"
    by (cases "length paramDecls \<le> i") simp_all
  then have Si: "Suc i \<le> length paramDecls" by simp
  have dr: "drop i paramDecls = paramDecls ! i # drop (Suc i) paramDecls"
    using lt by (simp add: Cons_nth_drop_Suc)
  let ?d = "paramDecls ! i"
  let ?pt = "paramTypeOf env p"
  have step: "i + length (p # ps) \<le> length paramDecls \<and>
         (\<exists>out. res = acc @ out \<and> spec_convertParams tr env (drop i paramDecls) (p # ps) out)"
    if run: "convertParamsFrom tr env paramDecls (Suc i) ps (acc @ pre) st1 = Ret res st'"
      and pre: "\<And>out. spec_convertParams tr env (drop (Suc i) paramDecls) ps out \<Longrightarrow>
                 spec_convertParams tr env (?d # drop (Suc i) paramDecls) (p # ps) (pre @ out)"
    for pre st1
  proof -
    from Cons.IH[OF run Si] obtain out where
      le: "Suc i + length ps \<le> length paramDecls" and
      res: "res = (acc @ pre) @ out" and
      sp: "spec_convertParams tr env (drop (Suc i) paramDecls) ps out"
      by blast
    from pre[OF sp] res le show ?thesis
      unfolding dr by (intro conjI exI[of _ "pre @ out"]) simp_all
  qed
  consider (notObj) "dotDotDotToken ?d" "\<not> hasFlag (typeFlags ?pt) TypeFlags_Object"
    | (notRef) "dotDotDotToken ?d" "hasFlag (typeFlags ?pt) TypeFlags_Object"
        "\<not> hasFlag (objectFlags ?pt) ObjectFlags_Reference"
    | (skip) "dotDotDotToken ?d" "hasFlag (typeFlags ?pt) TypeFlags_Object"
        "hasFlag (objectFlags ?pt) ObjectFlags_Reference" "typeArguments ?pt = None"
    | (empty) "dotDotDotToken ?d" "hasFlag (typeFlags ?pt) TypeFlags_Object"
        "hasFlag (objectFlags ?pt) ObjectFlags_Reference" "typeArguments ?pt = Some []"
    | (rest) a as where "dotDotDotToken ?d" "hasFlag (typeFlags ?pt) TypeFlags_Object"
        "hasFlag (objectFlags ?pt) ObjectFlags_Reference" "typeArguments ?pt = Some (a # as)"
    | (plain) "\<not> dotDotDotToken ?d"
    by (cases "typeArguments ?pt"; cases "the (typeArguments ?pt)") auto
  then show ?case
  proof cases
    case notObj
    then have run: "convertParamsFrom tr env paramDecls (Suc i) ps (acc @ [''!Array<?>''])
            (warn ''var args type is not an object type'' st) = Ret res st'"
      using lt Cons.prems(1) by (simp add: paramTypeOf_def)
    have ns: "\<not> paramSkipped env (?d, p)" and en: "paramEntry tr env (?d, p) ''!Array<?>''"
      using notObj by (simp_all add: paramSkipped_def paramEntry_def)
    show ?thesis
    proof (rule step[OF run])
      fix out assume "spec_convertParams tr env (drop (Suc i) paramDecls) ps out"
      from spec_convertParams_entry[OF ns en this]
      show "spec_convertParams tr env (?d # drop (Suc i) paramDecls) (p # ps) ([''!Array<?>''] @ out)"
        by (simp only: append.simps)
    qed
  next
    case notRef
    then have run: "convertParamsFrom tr env paramDecls (Suc i) ps (acc @ [''!Array<?>''])
            (warn ''unsupported var args type (not an array reference)'' st) = Ret res st'"
      using lt Cons.prems(1) by (simp add: paramTypeOf_def)
    have ns: "\<not> paramSkipped env (?d, p)" and en: "paramEntry tr env (?d, p) ''!Array<?>''"
      using notRef by (simp_all add: paramSkipped_def paramEntry_def)
    show ?thesis
    proof (rule step[OF run])
      fix out assume "spec_convertParams tr env (drop (Suc i) paramDecls) ps out"
      from spec_convertParams_entry[OF ns en this]
      show "spec_convertParams tr env (?d # drop (Suc i) paramDecls) (p # ps) ([''!Array<?>''] @ out)"
        by (simp only: append.simps)
    qed
  next
    case skip
    then have run: "convertParamsFrom tr env paramDecls (Suc i) ps (acc @ []) st = Ret res st'"
      using lt Cons.prems(1) by (simp add: paramTypeOf_def)
    have sk: "paramSkipped env (?d, p)"
      using skip by (simp add: paramSkipped_def)
    show ?thesis
      by (rule step[OF run]) (simp add: spec_convertParams_skip[OF sk])
  next
    case empty
    with lt Cons.prems(1) show ?thesis by (simp add: paramTypeOf_def)
  next
    case (rest a as)
    from rest lt Cons.prems(1)
    have "bind (tr a st) (\<lambda>typeStr st1. convertParamsFrom tr env paramDecls (Suc i) ps
              (acc @ [(''...'' @ typeStr) @ (if questionToken ?d then ''='' else [])]) st1) =
          Ret res st'"
      by (cases "questionToken (paramDecls ! i)") (simp_all add: paramTypeOf_def Let_def)
    from bind_RetD[OF this] obtain v st1 where
      st1: "tr a st = Ret v st1" and
      run: "convertParamsFrom tr env paramDecls (Suc i) ps
              (acc @ [(''...'' @ v) @ (if questionToken ?d then ''='' else [])]) st1 =
            Ret res st'"
      by blast
    have ns: "\<not> paramSkipped env (?d, p)"
      using rest by (simp add: paramSkipped_def)
    have en: "paramEntry tr env (?d, p) ((''...'' @ v) @ (if questionToken ?d then ''='' else []))"
      using rest st1 by (auto simp: paramEntry_def paramArgument_def)
    show ?thesis
    proof (rule step[OF run])
      fix out assume "spec_convertParams tr env (drop (Suc i) paramDecls) ps out"
      from spec_convertParams_entry[OF ns en this]
      show "spec_convertParams tr env (?d # drop (Suc i) paramDecls) (p # ps) ([(''...'' @ v) @ (if questionToken ?d then ''='' else [])] @ out)"
        by (simp only: append.simps)
    qed
  next
    case plain
    let ?t = "getTypeOfSymbolAtLocation (checker env) p"
    from plain lt Cons.prems(1)
    have "bind (tr ?t st) (\<lambda>typeStr st1. convertParamsFrom tr env paramDecls (Suc i) ps
              (acc @ [typeStr @ (if questionToken ?d then ''='' else [])]) st1) =
          Ret res st'"
      by (cases "questionToken (paramDecls ! i)") (simp_all add: paramTypeOf_def Let_def)
    from bind_RetD[OF this] obtain v st1 where
      st1: "tr ?t st = Ret v st1" and
      run: "convertParamsFrom tr env paramDecls (Suc i) ps
              (acc @ [v @ (if questionToken ?d then ''='' else [])]) st1 = Ret res st'"
      by blast
    have ns: "\<not> paramSkipped env (?d, p)"
      using plain by (simp add: paramSkipped_def)
    have en: "paramEntry tr env (?d, p) (v @ (if questionToken ?d then ''='' else []))"
      using plain st1 by (auto simp: paramEntry_def paramArgument_def)
    show ?thesis
    proof (rule step[OF run])
      fix out assume "spec_convertParams tr env (drop (Suc i) paramDecls) ps out"
      from spec_convertParams_entry[OF ns en this]
      show "spec_convertParams tr env (?d # drop (Suc i) paramDecls) (p # ps) ([v @ (if questionToken ?d then ''='' else [])] @ out)"
        by (simp only: append.simps)
    qed
  qed
qed

text \<open>
  \<open>convertParams\<close> reads \<open>paramDecls[i]\<close> for every parameter without a check.
  Whenever it returns, \<open>paramDecls\<close> has at least as many elements as the signature has
  parameters, and the result has one entry for each parameter that is not skipped, in
  index order. When the calls of \<open>translate\<close> return and no rest parameter has an empty
  array of type arguments, it returns if \<open>paramDecls\<close> is that long, and otherwise throws
  the \<open>TypeError\<close> of reading \<open>paramDecls[i]\<close> at \<open>i = paramDecls.length\<close>.
\<close>

lemma convertParams_length_precondition:
  "(\<forall>out st'. convertParams tr env sig paramDecls st = Ret out st' \<longrightarrow>
      length (parameters sig) \<le> length paramDecls \<and>
      spec_convertParams tr env paramDecls (parameters sig) out) \<and>
   ((\<forall>t st. \<exists>v st'. tr t st = Ret v st') \<and>
    list_all (\<lambda>p. typeArguments (paramTypeOf env p) \<noteq> Some []) (parameters sig) \<longrightarrow>
      (if length (parameters sig) \<le> length paramDecls
       then \<exists>out st'. convertParams tr env sig paramDecls st = Ret out st'
       else convertParams tr env sig paramDecls st =
              Throw (MissingParamDecl (length paramDecls) (length paramDecls))))"
proof (intro conjI allI impI)
  fix out st' assume "convertParams tr env sig paramDecls st = Ret out st'"
  from convertParamsFrom_returns[OF this[unfolded convertParams_def]]
  show "length (parameters sig) \<le> length paramDecls"
    and "spec_convertParams tr env paramDecls (parameters sig) out"
    by auto
next
  assume a: "(\<forall>t st. \<exists>v st'. tr t st = Ret v st') \<and>
    list_all (\<lambda>p. typeArguments (paramTypeOf env p) \<noteq> Some []) (parameters sig)"
  then have tr: "\<And>t st. \<exists>v st'. tr t st = Ret v st'" by blast
  from convertParams_total[where tr = tr and env = env and sig = sig
      and paramDecls = paramDecls and st = st, OF tr] a
  show "if length (parameters sig) \<le> length paramDecls
       then \<exists>out st'. convertParams tr env sig paramDecls st = Ret out st'
       else convertParams tr env sig paramDecls st =
              Throw (MissingParamDecl (length paramDecls) (length paramDecls))"
    by auto
qed

lemma translate_objectEnv: "translate (Suc 0) objectEnv t st = Ret ''!Object'' st"
  by (simp add: objectEnv_def exEnv_def plainType_def translateBody_def)

lemma convertParams_length_precondition_example:
  "(\<exists>out st'. convertParams (translate (Suc 0) objectEnv) objectEnv oneParamSig [plainParam]
                 exState = Ret out st' \<and> length out = 1) \<and>
   convertParams (translate (Suc 0) objectEnv) objectEnv oneParamSig [] exState =
     Throw (MissingParamDecl 0 0)"
proof -
  have tr: "\<forall>t st. \<exists>v st'. translate (Suc 0) objectEnv t st = Ret v st'"
    using translate_objectEnv by blast
  have ne: "list_all (\<lambda>p. typeArguments (paramTypeOf objectEnv p) \<noteq> Some [])
              (parameters oneParamSig)"
    by (simp add: oneParamSig_def paramTypeOf_def objectEnv_def exEnv_def plainType_def)
  have ns: "\<not> paramSkipped objectEnv (plainParam, 1)"
    by (simp add: paramSkipped_def plainParam_def)
  note main = convertParams_length_precondition[where tr = "translate (Suc 0) objectEnv"
      and env = objectEnv and sig = oneParamSig and st = exState]
  from main[where paramDecls = "[plainParam]"] tr ne
  obtain out st' where r:
    "convertParams (translate (Suc 0) objectEnv) objectEnv oneParamSig [plainParam] exState =
       Ret out st'"
    by (auto simp: oneParamSig_def)
  with main[where paramDecls = "[plainParam]"]
  have "spec_convertParams (translate (Suc 0) objectEnv) objectEnv [plainParam]
       (parameters oneParamSig) out"
    by blast
  with ns have "length out = 1"
    by (auto simp: spec_convertParams_def oneParamSig_def dest: list_all2_lengthD)
  moreover from main[where paramDecls = "[]"] tr ne
  have "convertParams (translate (Suc 0) objectEnv) objectEnv oneParamSig [] exState =
          Throw (MissingParamDecl 0 0)"
    by (simp add: oneParamSig_def)
  ultimately show ?thesis using r by blast
qed

text \<open>
  Claim C10 says that \<open>convertParams\<close>, when \<open>paramDecls\<close> has at least as many elements
  as the signature has parameters, reads no missing element and returns one entry for
  each parameter that is not skipped. The code at a rest parameter whose type is an
  array reference with an empty array of type arguments, with its parameter
  declaration: the test for a rest argument that resolves empty finds an absent array
  only, \<open>typeArguments[0]\<close> is \<open>undefined\<close>, and \<open>translate\<close> throws the \<open>TypeError\<close> of
  reading its flags, whatever \<open>translate\<close> does on types.
\<close>

theorem convertParams_empty_type_arguments:
  "length (parameters restSig) \<le> length [restParam] \<and>
   dotDotDotToken restParam \<and>
   typeArguments (paramTypeOf restEnv 1) = Some [] \<and>
   (\<forall>tr st. convertParams tr restEnv restSig [restParam] st = Throw UndefinedType)"
  by (simp add: convertParams_def restSig_def restParam_def restEnv_def restTypes_def
      paramTypeOf_def exEnv_def exChecker_def plainType_def hasFlag_def TypeFlags_Object_def
      ObjectFlags_Reference_def Let_def)

section \<open>Errors and the recursion set through every method\<close>

lemma seen_warn: "seenAnonymousTypes (warn msg st) = seenAnonymousTypes st"
  by (simp add: warn_def)

lemma seen_blacklistLoop: "seenAnonymousTypes (blacklistLoop env ds st) = seenAnonymousTypes st"
  by (induction ds arbitrary: st) (simp_all add: seen_warn split: option.splits)

lemma seen_blacklistTypeParameters:
  "seenAnonymousTypes (blacklistTypeParameters env decls st) = seenAnonymousTypes st"
  by (simp add: blacklistTypeParameters_def seen_blacklistLoop split: option.splits)

lemma seen_symbolToString:
  "seenAnonymousTypes (snd (symbolToString env s st)) = seenAnonymousTypes st"
  by (simp add: symbolToString_def Let_def split: option.splits)

lemmas seen_simps = seen_warn seen_blacklistTypeParameters seen_symbolToString

lemma good_Ret: "seenAnonymousTypes st' = seenAnonymousTypes st \<Longrightarrow> good b env st (Ret v st')"
  by (simp add: good_def)

lemma good_Throw: "errorSite env e \<Longrightarrow> good b env st (Throw e)"
  by (simp add: good_def)

lemma good_seen_eq:
  "seenAnonymousTypes st1 = seenAnonymousTypes st \<Longrightarrow> good b env st1 r \<Longrightarrow> good b env st r"
  by (simp add: good_def split: result.splits)

lemma good_seen_le:
  "seenAnonymousTypes st \<subseteq> seenAnonymousTypes st1 \<Longrightarrow>
   seenAnonymousTypes st1 \<subseteq> seenAnonymousTypes st \<union> objectTypes env \<Longrightarrow>
   good b env st1 r \<Longrightarrow> good b env st r"
  by (auto simp: good_def split: result.splits)

lemma good_bind:
  assumes "good b env st r" and "\<And>v s. r = Ret v s \<Longrightarrow> good b env s (f v s)"
  shows "good b env st (bind r f)"
proof (cases r)
  case (Ret v s)
  with assms(1) have le: "seenAnonymousTypes st \<subseteq> seenAnonymousTypes s"
    and ge: "seenAnonymousTypes s \<subseteq> seenAnonymousTypes st \<union> objectTypes env"
    by (simp_all add: good_def)
  from assms(2)[OF Ret] have "good b env s (f v s)" .
  with le ge have "good b env st (f v s)" by (rule good_seen_le)
  with Ret show ?thesis by (simp add: bind_def)
qed (use assms(1) in \<open>simp_all add: bind_def good_def\<close>)

lemma good_if:
  "(c \<Longrightarrow> good b env st x) \<Longrightarrow> (\<not> c \<Longrightarrow> good b env st y) \<Longrightarrow>
   good b env st (if c then x else y)"
  by simp

lemma good_option:
  "(x = None \<Longrightarrow> good b env st a) \<Longrightarrow> (\<And>y. x = Some y \<Longrightarrow> good b env st (f y)) \<Longrightarrow>
   good b env st (case x of None \<Rightarrow> a | Some y \<Rightarrow> f y)"
  by (cases x) simp_all

lemma good_RetD:
  "good b env st (Ret v s) \<Longrightarrow> S \<subseteq> seenAnonymousTypes st \<Longrightarrow> S \<subseteq> seenAnonymousTypes s"
  by (auto simp: good_def)

lemma good_total_returns: "good True env st r \<Longrightarrow> r \<noteq> OutOfFuel"
  by (auto simp: good_def)

lemma good_total_intro: "good False env st r \<Longrightarrow> r \<noteq> OutOfFuel \<Longrightarrow> good True env st r"
  by (cases r) (auto simp: good_def)

lemma translateAll_good:
  assumes "\<And>t s. good b env s (tr t s)"
  shows "good b env st (translateAll tr ts st)"
proof (induction ts arbitrary: st)
  case Nil
  show ?case by (simp add: good_Ret)
next
  case (Cons t ts)
  show ?case
    by (simp, intro good_bind assms Cons.IH good_Ret) simp
qed

lemma convertParamsFrom_good:
  assumes tr: "\<And>t s. good b env s (tr t s)"
    and site: "(sig, paramDecls) \<in> paramSites env"
  shows "parameters sig = pre @ ps \<Longrightarrow> length pre = i \<Longrightarrow> i \<le> length paramDecls \<Longrightarrow>
         good b env st (convertParamsFrom tr env paramDecls i ps acc st)"
proof (induction ps arbitrary: i pre acc st)
  case Nil
  show ?case by (simp add: good_Ret)
next
  case (Cons p ps)
  show ?case
  proof (cases "length paramDecls \<le> i")
    case True
    with Cons.prems have i: "i = length paramDecls" by simp
    have "missingDeclSite env (length paramDecls)"
      unfolding missingDeclSite_def using site Cons.prems i
      by (intro exI[of _ sig] exI[of _ paramDecls]) simp
    then show ?thesis using i by (simp add: good_Throw)
  next
    case False
    then have lt: "i < length paramDecls" by simp
    have nth: "parameters sig ! i = p" using Cons.prems by (simp add: nth_append)
    have step: "good b env s (convertParamsFrom tr env paramDecls (Suc i) ps acc' s)" for acc' s
      by (rule Cons.IH[of "pre @ [p]"]) (use Cons.prems lt in simp_all)
    have w: "good b env st (convertParamsFrom tr env paramDecls (Suc i) ps acc' (warn msg st))"
      for acc' msg
      by (rule good_seen_eq[OF seen_warn]) (rule step)
    have empty: "emptyRestSite env"
      if "dotDotDotToken (paramDecls ! i)"
        and "typeArguments (typeOf env (getTypeOfSymbolAtLocation (checker env) p)) = Some []"
      unfolding emptyRestSite_def using site lt that nth Cons.prems
      by (intro exI[of _ sig] exI[of _ paramDecls] exI[of _ i]) (simp add: paramTypeOf_def)
    show ?thesis
      using False empty
      by (auto simp: Let_def w step intro!: good_Throw good_bind tr
          split: option.splits list.splits)
  qed
qed

lemma convertParams_good:
  assumes "\<And>t s. good b env s (tr t s)"
    and "(sig, paramDecls) \<in> paramSites env"
  shows "good b env st (convertParams tr env sig paramDecls st)"
  unfolding convertParams_def
  by (rule convertParamsFrom_good[OF assms, of "[]"]) simp_all

lemma thisParameter_good:
  assumes "\<And>t s. good b env s (tr t s)"
  shows "good b env st (thisParameter tr env paramDecls st)"
  by (auto simp: thisParameter_def seen_simps intro!: good_bind good_Ret assms
      split: list.splits option.splits)

lemma thisParameter_snd:
  "thisParameter tr env paramDecls st = Ret r s \<Longrightarrow> snd r = declsAfterThis paramDecls"
  by (auto simp: thisParameter_def declsAfterThis_def bind_def
      split: list.splits option.splits if_splits result.splits)

lemma signatureToClosure_good:
  assumes tr: "\<And>t s. good b env s (tr t s)"
    and one: "length (getSignaturesOfType (checker env) u) = 1"
  shows "good b env st (signatureToClosure tr env (getSignaturesOfType (checker env) u ! 0) st)"
proof -
  define sig where "sig = getSignaturesOfType (checker env) u ! 0"
  from one have sigs: "getSignaturesOfType (checker env) u = [sig]"
    unfolding sig_def by (cases "getSignaturesOfType (checker env) u") simp_all
  have "good b env st (signatureToClosure tr env sig st)"
  proof (cases "sigDeclaration sig")
    case None
    then show ?thesis by (simp add: signatureToClosure_def good_Ret seen_simps)
  next
    case (Some d)
    show ?thesis
    proof (cases "sigKind d = JSDocSignature")
      case True
      with Some show ?thesis by (simp add: signatureToClosure_def good_Ret seen_simps)
    next
      case False
      let ?st0 = "blacklistTypeParameters env (typeParameters d) st"
      have site: "(sig, declsAfterThis (sigParameters d)) \<in> paramSites env"
        unfolding paramSites_def using sigs Some False by blast
      have first: "good b env st (thisParameter tr env (sigParameters d) ?st0)"
        by (rule good_seen_eq[OF seen_blacklistTypeParameters]) (rule thisParameter_good[OF tr])
      have rest: "good b env s1
          (bind (convertParams tr env sig (snd r) s1)
             (\<lambda>params st2.
                bind (tr (getReturnTypeOfSignature (checker env) sig) st2)
                  (\<lambda>retType st3.
                     Ret (if retType \<noteq> []
                          then (fst r @ join '', '' params @ '')'') @ '': '' @ retType
                          else fst r @ join '', '' params @ '')'') st3)))"
        if "thisParameter tr env (sigParameters d) ?st0 = Ret r s1" for r s1
      proof -
        from thisParameter_snd[OF that] have "snd r = declsAfterThis (sigParameters d)" .
        with site have "(sig, snd r) \<in> paramSites env" by simp
        then show ?thesis
          by (intro good_bind convertParams_good tr good_Ret) simp_all
      qed
      show ?thesis
        using Some False
        by (simp add: signatureToClosure_def Let_def case_prod_unfold)
          (rule good_bind[OF first], rule rest)
    qed
  qed
  then show ?thesis by (simp add: sig_def)
qed

lemma translateConstructor_good:
  assumes tr: "\<And>t s. good b env s (tr t s)"
    and ctor: "getConstructSignatures (typeOf env u) = ctor # rest"
  shows "good b env st (translateConstructor tr env ctor st)"
proof (cases "sigDeclaration ctor")
  case None
  then show ?thesis by (simp add: translateConstructor_def good_Ret seen_simps)
next
  case (Some d)
  show ?thesis
  proof (cases "sigKind d = JSDocSignature")
    case True
    with Some show ?thesis by (simp add: translateConstructor_def good_Ret seen_simps)
  next
    case False
    have site: "(ctor, sigParameters d) \<in> paramSites env"
      unfolding paramSites_def using ctor Some False by blast
    have "good b env st (convertParams tr env ctor (sigParameters d)
            (blacklistTypeParameters env (typeParameters d) st))"
      by (rule good_seen_eq[OF seen_blacklistTypeParameters])
        (rule convertParams_good[OF tr site])
    then show ?thesis
      using Some False
      by (auto simp: translateConstructor_def good_Ret seen_simps Let_def
          intro!: good_bind tr)
  qed
qed

lemma fieldsLoop_good:
  assumes "\<And>t s. good b env s (tr t s)"
  shows "good b env st (fieldsLoop tr env ms acc st)"
proof (induction ms arbitrary: acc st)
  case Nil
  show ?case by (simp add: good_Ret)
next
  case (Cons m ms)
  obtain field mem where m: "m = (field, mem)" by (cases m)
  obtain callable indexable flds where acc: "acc = (callable, indexable, flds)"
    by (cases acc) auto
  have w: "good b env st (fieldsLoop tr env ms acc' (warn msg st))" for acc' msg
    by (rule good_seen_eq[OF seen_warn]) (rule Cons.IH)
  show ?case
    unfolding m acc
    by (auto simp: w Cons.IH intro!: good_bind assms)
qed

lemma anonymousShape_good:
  assumes "\<And>t s. good b env s (tr t s)"
  shows "good b env st (anonymousShape tr env t callable indexable flds st)"
  by (auto simp: anonymousShape_def Let_def good_Ret seen_simps signatureToClosure_good[OF assms]
      intro!: good_bind assms split: option.splits)

lemma translateAnonymousType_good:
  assumes tr: "\<And>t s. good b env s (tr t s)"
    and obj: "typeFlags (typeOf env t) AND flagMask = TypeFlags_Object"
  shows "good b env st (translateAnonymousType tr env t st)"
proof -
  let ?st0 = "st\<lparr>seenAnonymousTypes := insert t (seenAnonymousTypes st)\<rparr>"
  have le: "seenAnonymousTypes st \<subseteq> seenAnonymousTypes ?st0" by auto
  have ge: "seenAnonymousTypes ?st0 \<subseteq> seenAnonymousTypes st \<union> objectTypes env"
    using obj by (auto simp: objectTypes_def)
  have "good b env ?st0 (translateAnonymousType tr env t st)"
    by (auto simp: translateAnonymousType_def Let_def good_Ret seen_simps
        intro!: good_bind fieldsLoop_good[OF tr] anonymousShape_good[OF tr]
          translateConstructor_good[OF tr]
        split: option.splits list.splits)
  with le ge show ?thesis by (rule good_seen_le)
qed

lemma translateReference_good:
  assumes "\<And>t s. good b env s (tr t s)"
    and "typeFlags (typeOf env t) AND flagMask = TypeFlags_Object"
    and "hasFlag (objectFlags (typeOf env t)) ObjectFlags_Reference"
  shows "good b env st (translateReference tr env t st)"
  unfolding translateReference_def Let_def
  by (intro good_if good_bind good_option good_Ret good_Throw assms(1)
      translateAll_good[OF assms(1)])
    (simp_all add: selfReference_def assms(2,3))

lemma translateObject_good:
  assumes "\<And>t s. good b env s (tr t s)"
    and "typeFlags (typeOf env t) AND flagMask = TypeFlags_Object"
  shows "good b env st (translateObject tr env t st)"
  unfolding translateObject_def Let_def case_prod_beta
  by (intro good_if good_option good_Ret translateReference_good[OF assms]
      signatureToClosure_good[OF assms(1)] translateAnonymousType_good[OF assms])
    (simp_all add: seen_simps)

lemma translateUnion_good:
  assumes "\<And>t s. good b env s (tr t s)"
  shows "good b env st (translateUnion tr env t st)"
  unfolding translateUnion_def Let_def
  by (intro good_bind good_Ret translateAll_good[OF assms]) simp

lemma translateEnumLiteral_good: "good b env st (translateEnumLiteral env t st)"
  unfolding translateEnumLiteral_def Let_def case_prod_beta
  by (intro good_if good_option good_Ret) (simp_all add: seen_simps)

lemma dispatch_good:
  assumes "\<And>t s. good b env s (tr t s)"
  shows "good b env st (dispatch tr env t st)"
  unfolding dispatch_def Let_def case_prod_beta
  apply (intro good_if good_option good_Ret good_Throw translateUnion_good[OF assms]
      translateEnumLiteral_good translateObject_good[OF assms])
  apply (simp_all add: seen_simps unmatchedKind_def handledKinds_def)
  done

lemma translateBody_good:
  assumes "\<And>t s. good b env s (tr t s)"
  shows "good b env st (translateBody tr env t st)"
  unfolding translateBody_def Let_def case_prod_beta
  by (intro good_if good_Ret dispatch_good[OF assms]) simp_all

lemma translate_good: "good False env st (translate n env t st)"
proof (induction n arbitrary: t st)
  case 0
  show ?case by (simp add: good_def)
next
  case (Suc n)
  show ?case by (simp add: translateBody_good[OF Suc.IH])
qed

text \<open>
  The recursion set gains object types only: started from a recursion set of object
  types, such as the empty set of a new translator, \<open>translate\<close> returns a state whose
  recursion set holds object types only.
\<close>

lemma translate_seen_objects:
  assumes "translate n env t st = Ret v st'"
    and "seenAnonymousTypes st \<subseteq> objectTypes env"
  shows "seenAnonymousTypes st' \<subseteq> objectTypes env"
  using translate_good[of env st n t] assms by (auto simp: good_def)

text \<open>
  The errors \<open>translate\<close> throws, the \<open>RangeError\<close> of a recursion without end apart
  (a call that is \<open>OutOfFuel\<close> with every fuel): the two \<open>throw\<close> statements, at a
  reference-flagged object type whose target is the type itself and at kind bits
  matched by no case, with neither the union nor the enum-literal bit; and the two
  \<open>TypeError\<close>s of
  \<open>convertParams\<close>, at a signature with more parameters than its declaration has
  parameter declarations and at a rest parameter whose array of type arguments is
  empty. All other paths, the warning paths among them, return or recurse.
\<close>

lemma translate_throw_sites:
  assumes "translate n env t st = Throw e"
  shows "(\<exists>u. e = ReferenceLoop u \<and> selfReference env u) \<or>
         (\<exists>u. e = UnknownTypeFlags u \<and> unmatchedKind env u) \<or>
         (\<exists>k. e = MissingParamDecl k k \<and> missingDeclSite env k) \<or>
         (e = UndefinedType \<and> emptyRestSite env)"
proof -
  from translate_good[of env st n t] assms have "errorSite env e" by (simp add: good_def)
  then show ?thesis by (cases e) simp_all
qed

lemma translate_reference_loop:
  "translate (Suc 0) refEnv 0 exState = Throw (ReferenceLoop 0) \<and> selfReference refEnv 0"
proof -
  have 1: "translate (Suc 0) refEnv 0 exState = Throw (ReferenceLoop 0)"
    by (simp add: refEnv_def refTypes_def example_defs flagMask_eq typeFlag_defs otherFlag_defs
        translate_defs)
  from translate_throw_sites[OF 1] 1 show ?thesis by simp
qed

text \<open>
  Claim C7 says that \<open>translate\<close> throws in two situations only: at a reference that is
  its own target, and at kind bits matched by no case. The code at a function type whose
  one call signature has a parameter and whose declaration has no parameter declaration,
  where no type is its own target and all kind bits are matched: \<open>convertParams\<close> reads
  \<open>paramDecls[0].questionToken\<close> of an empty \<open>paramDecls\<close>, and \<open>translate\<close> throws the
  \<open>TypeError\<close>, with any fuel.
\<close>

theorem translate_missing_parameter_declaration:
  "(\<forall>n. translate (Suc n) missingEnv 0 exState = Throw (MissingParamDecl 0 0)) \<and>
   (\<forall>t. \<not> selfReference missingEnv t \<and> \<not> unmatchedKind missingEnv t)"
proof -
  have 1: "translate (Suc n) missingEnv 0 exState = Throw (MissingParamDecl 0 0)" for n
    by (simp add: missingEnv_def missingTypes_def loopSymbols_def missingSig_def literalType_def
        example_defs flagMask_eq typeFlag_defs otherFlag_defs translate_defs)
  have 2: "\<not> selfReference missingEnv t \<and> \<not> unmatchedKind missingEnv t" for t
    by (simp add: selfReference_def unmatchedKind_def handledKinds_def missingEnv_def
        missingTypes_def literalType_def example_defs flagMask_eq typeFlag_defs otherFlag_defs
        hasFlag_def)
  from 1 2 show ?thesis by simp
qed

section \<open>What a call depends on\<close>

lemma seenMonoD:
  "seenMono tr \<Longrightarrow> tr c s = Ret v s' \<Longrightarrow> S \<subseteq> seenAnonymousTypes s \<Longrightarrow>
   S \<subseteq> seenAnonymousTypes s'"
  unfolding seenMono_def by blast

lemma agreeOnD:
  "agreeOn C S tr tr' \<Longrightarrow> c \<in> C \<Longrightarrow> S \<subseteq> seenAnonymousTypes s \<Longrightarrow> tr c s = tr' c s"
  unfolding agreeOn_def by blast

lemma agreeOn_mono:
  "agreeOn C S tr tr' \<Longrightarrow> C' \<subseteq> C \<Longrightarrow> S \<subseteq> S' \<Longrightarrow> agreeOn C' S' tr tr'"
  unfolding agreeOn_def by blast

lemma good_seenMono: "(\<And>t s. good b env s (tr t s)) \<Longrightarrow> seenMono tr"
  unfolding seenMono_def by (metis good_RetD subset_refl)

lemma bind_agree:
  assumes "r = r'" and "\<And>v s. r = Ret v s \<Longrightarrow> f v s = f' v s"
  shows "bind r f = bind r' f'"
  using assms by (cases r) (auto simp: bind_def)

lemma if_agree:
  "(c \<Longrightarrow> x = x') \<Longrightarrow> (\<not> c \<Longrightarrow> y = y') \<Longrightarrow> (if c then x else y) = (if c then x' else y')"
  by simp

lemma option_agree:
  "(x = None \<Longrightarrow> a = a') \<Longrightarrow> (\<And>y. x = Some y \<Longrightarrow> f y = f' y) \<Longrightarrow>
   (case x of None \<Rightarrow> a | Some y \<Rightarrow> f y) = (case x of None \<Rightarrow> a' | Some y \<Rightarrow> f' y)"
  by (cases x) simp_all

lemma bind_tr_agree:
  assumes "seenMono tr" and "agreeOn C S tr tr'" and "c \<in> C" and "S \<subseteq> seenAnonymousTypes st"
    and "\<And>v s. S \<subseteq> seenAnonymousTypes s \<Longrightarrow> f v s = f' v s"
  shows "bind (tr c st) f = bind (tr' c st) f'"
proof (rule bind_agree)
  show "tr c st = tr' c st" by (rule agreeOnD[OF assms(2,3,4)])
next
  fix v s assume "tr c st = Ret v s"
  from seenMonoD[OF assms(1) this assms(4)] show "f v s = f' v s" by (rule assms(5))
qed

lemma translateAll_agree:
  assumes "seenMono tr" and "agreeOn C S tr tr'"
  shows "set ts \<subseteq> C \<Longrightarrow> S \<subseteq> seenAnonymousTypes st \<Longrightarrow>
         translateAll tr ts st = translateAll tr' ts st"
proof (induction ts arbitrary: st)
  case Nil
  show ?case by simp
next
  case (Cons t ts)
  have hd: "tr t st = tr' t st"
    using agreeOnD[OF assms(2)] Cons.prems by simp
  have tl: "translateAll tr ts s = translateAll tr' ts s" if "tr t st = Ret v s" for v s
    using Cons.IH[of s] Cons.prems seenMonoD[OF assms(1) that] by simp
  show ?case
    by (simp, intro bind_agree hd) (simp_all add: tl)
qed

lemma convertParamsFrom_agree:
  assumes "seenMono tr" and "agreeOn C S tr tr'"
  shows "set (paramCalls env paramDecls i ps) \<subseteq> C \<Longrightarrow> S \<subseteq> seenAnonymousTypes st \<Longrightarrow>
         convertParamsFrom tr env paramDecls i ps acc st =
         convertParamsFrom tr' env paramDecls i ps acc st"
proof (induction ps arbitrary: i acc st)
  case Nil
  show ?case by simp
next
  case (Cons p ps)
  show ?case
  proof (cases "length paramDecls \<le> i")
    case True
    then show ?thesis by simp
  next
    case False
    let ?pt = "getTypeOfSymbolAtLocation (checker env) p"
    from False Cons.prems(1)
    have sub: "set (paramCalls env paramDecls (Suc i) ps) \<subseteq> C"
      by (simp add: Let_def)
    have rec: "convertParamsFrom tr env paramDecls (Suc i) ps acc' s =
               convertParamsFrom tr' env paramDecls (Suc i) ps acc' s"
      if "S \<subseteq> seenAnonymousTypes s" for acc' s
      using Cons.IH[OF sub that] .
    have recw: "convertParamsFrom tr env paramDecls (Suc i) ps acc' (warn msg st) =
               convertParamsFrom tr' env paramDecls (Suc i) ps acc' (warn msg st)" for acc' msg
      using rec[of "warn msg st"] Cons.prems(2) by (simp add: seen_warn)
    have call: "bind (tr c st) (\<lambda>typeStr st1. convertParamsFrom tr env paramDecls (Suc i) ps
                   (g typeStr) st1) =
                bind (tr' c st) (\<lambda>typeStr st1. convertParamsFrom tr' env paramDecls (Suc i) ps
                   (g typeStr) st1)" if "c \<in> C" for c g
    proof (intro bind_agree)
      show "tr c st = tr' c st"
        using agreeOnD[OF assms(2) that] Cons.prems(2) by simp
    next
      fix v s assume "tr c st = Ret v s"
      from seenMonoD[OF assms(1) this Cons.prems(2)]
      show "convertParamsFrom tr env paramDecls (Suc i) ps (g v) s =
            convertParamsFrom tr' env paramDecls (Suc i) ps (g v) s"
        by (rule rec)
    qed
    show ?thesis
    proof (cases "dotDotDotToken (paramDecls ! i)")
      case True
      show ?thesis
      proof (cases "typeArguments (typeOf env ?pt)")
        case None
        with True False show ?thesis
          using rec[OF Cons.prems(2)] by (simp add: Let_def recw)
      next
        case (Some as)
        show ?thesis
        proof (cases as)
          case Nil
          with Some True False show ?thesis by (simp add: Let_def recw)
        next
          case (Cons a as')
          show ?thesis
          proof (cases "hasFlag (typeFlags (typeOf env ?pt)) TypeFlags_Object \<and>
              hasFlag (objectFlags (typeOf env ?pt)) ObjectFlags_Reference")
            case ok: True
            with Cons.prems(1) False True Some Cons have "a \<in> C" by (simp add: Let_def)
            from call[OF this] ok True False Some Cons show ?thesis by (simp add: Let_def)
          next
            case False
            with \<open>\<not> length paramDecls \<le> i\<close> True show ?thesis
              by (auto simp: Let_def recw)
          qed
        qed
      qed
    next
      case nv: False
      with Cons.prems(1) False have "?pt \<in> C" by (simp add: Let_def)
      from call[OF this] nv False show ?thesis by (simp add: Let_def)
    qed
  qed
qed

lemma thisParameter_agree:
  assumes "agreeOn C S tr tr'"
    and "set (thisCalls env paramDecls) \<subseteq> C" and "S \<subseteq> seenAnonymousTypes st"
  shows "thisParameter tr env paramDecls st = thisParameter tr' env paramDecls st"
proof (cases paramDecls)
  case Nil
  then show ?thesis by (simp add: thisParameter_def)
next
  case (Cons p rest)
  show ?thesis
  proof (cases "paramNameText p = ''this''")
    case False
    with Cons show ?thesis by (simp add: thisParameter_def)
  next
    case True
    show ?thesis
    proof (cases "paramType p")
      case None
      with True Cons show ?thesis by (simp add: thisParameter_def)
    next
      case (Some tn)
      with True Cons assms(2) have "getTypeAtLocation (checker env) tn \<in> C"
        by (simp add: thisCalls_def)
      from agreeOnD[OF assms(1) this assms(3)] Some True Cons
      show ?thesis by (simp add: thisParameter_def)
    qed
  qed
qed

lemma thisParameter_decls:
  assumes "thisParameter tr env paramDecls st = Ret (typeStr, ds) s"
  shows "ds = declsAfterThis paramDecls"
proof (cases paramDecls)
  case Nil
  with assms show ?thesis by (simp add: thisParameter_def declsAfterThis_def)
next
  case (Cons p rest)
  show ?thesis
  proof (cases "paramNameText p = ''this''")
    case False
    with Cons assms show ?thesis by (auto simp: thisParameter_def declsAfterThis_def)
  next
    case True
    show ?thesis
    proof (cases "paramType p")
      case None
      with True Cons assms show ?thesis by (auto simp: thisParameter_def declsAfterThis_def)
    next
      case (Some tn)
      with True Cons assms show ?thesis
        by (cases "tr (getTypeAtLocation (checker env) tn) st")
          (auto simp: thisParameter_def declsAfterThis_def bind_def)
    qed
  qed
qed

lemma convertParamsFrom_seen:
  assumes "seenMono tr"
  shows "convertParamsFrom tr env paramDecls i ps acc st = Ret out st' \<Longrightarrow>
         seenAnonymousTypes st \<subseteq> seenAnonymousTypes st'"
proof (induction ps arbitrary: i acc st)
  case Nil
  then show ?case by simp
next
  case (Cons p ps)
  have w: "seenAnonymousTypes st \<subseteq> seenAnonymousTypes st'"
    if "convertParamsFrom tr env paramDecls (Suc i) ps acc' (warn msg st) = Ret out st'"
    for acc' msg
    using Cons.IH[OF that] by (simp add: seen_warn)
  have b: "seenAnonymousTypes st \<subseteq> seenAnonymousTypes st'"
    if "bind (tr a st) (\<lambda>typeStr st1. convertParamsFrom tr env paramDecls (Suc i) ps
          (f typeStr) st1) = Ret out st'" for a f
  proof (cases "tr a st")
    case (Ret v s1)
    from seenMonoD[OF assms Ret subset_refl] have 1: "seenAnonymousTypes st \<subseteq> seenAnonymousTypes s1" .
    from that Ret have "convertParamsFrom tr env paramDecls (Suc i) ps (f v) s1 = Ret out st'"
      by (simp add: bind_def)
    from Cons.IH[OF this] 1 show ?thesis by blast
  qed (use that in \<open>simp_all add: bind_def\<close>)
  from Cons.prems show ?case
    by (auto simp: Let_def split: if_splits option.splits list.splits dest: w b Cons.IH)
qed

lemma convertParams_seen:
  assumes "seenMono tr" and "convertParams tr env sig paramDecls st = Ret out st'"
  shows "seenAnonymousTypes st \<subseteq> seenAnonymousTypes st'"
  using convertParamsFrom_seen[OF assms(1)] assms(2) unfolding convertParams_def by blast

lemma signatureToClosure_agree:
  assumes tg: "\<And>t s. good b env s (tr t s)"
    and ag: "agreeOn C S tr tr'"
    and sub: "set (sigCalls env sig) \<subseteq> C" and st: "S \<subseteq> seenAnonymousTypes st"
  shows "signatureToClosure tr env sig st = signatureToClosure tr' env sig st"
proof (cases "sigDeclaration sig")
  case None
  then show ?thesis by (simp add: signatureToClosure_def)
next
  case (Some d)
  show ?thesis
  proof (cases "sigKind d = JSDocSignature")
    case True
    with Some show ?thesis by (simp add: signatureToClosure_def)
  next
    case False
    let ?st0 = "blacklistTypeParameters env (typeParameters d) st"
    from sub Some False have
      c1: "set (thisCalls env (sigParameters d)) \<subseteq> C" and
      c2: "set (paramCalls env (declsAfterThis (sigParameters d)) 0 (parameters sig)) \<subseteq> C" and
      c3: "getReturnTypeOfSignature (checker env) sig \<in> C"
      by (simp_all add: sigCalls_def)
    have st0: "S \<subseteq> seenAnonymousTypes ?st0"
      using st by (simp add: seen_simps)
    have "bind (thisParameter tr env (sigParameters d) ?st0)
            (\<lambda>r st1. bind (convertParams tr env sig (snd r) st1)
               (\<lambda>params st2. bind (tr (getReturnTypeOfSignature (checker env) sig) st2)
                  (\<lambda>retType st3. Ret (h (fst r) params retType) st3))) =
          bind (thisParameter tr' env (sigParameters d) ?st0)
            (\<lambda>r st1. bind (convertParams tr' env sig (snd r) st1)
               (\<lambda>params st2. bind (tr' (getReturnTypeOfSignature (checker env) sig) st2)
                  (\<lambda>retType st3. Ret (h (fst r) params retType) st3)))" for h
    proof (rule bind_agree)
      show "thisParameter tr env (sigParameters d) ?st0 =
            thisParameter tr' env (sigParameters d) ?st0"
        by (rule thisParameter_agree[OF ag c1 st0])
    next
      fix r s1 assume 1: "thisParameter tr env (sigParameters d) ?st0 = Ret r s1"
      have "good b env ?st0 (thisParameter tr env (sigParameters d) ?st0)"
        by (rule thisParameter_good[OF tg])
      then have "good b env ?st0 (Ret r s1)" by (simp only: 1)
      then have s1: "S \<subseteq> seenAnonymousTypes s1" using st0 by (rule good_RetD)
      from 1 have "thisParameter tr env (sigParameters d) ?st0 = Ret (fst r, snd r) s1" by simp
      then have ds: "snd r = declsAfterThis (sigParameters d)" by (rule thisParameter_decls)
      show "bind (convertParams tr env sig (snd r) s1)
               (\<lambda>params st2. bind (tr (getReturnTypeOfSignature (checker env) sig) st2)
                  (\<lambda>retType st3. Ret (h (fst r) params retType) st3)) =
            bind (convertParams tr' env sig (snd r) s1)
               (\<lambda>params st2. bind (tr' (getReturnTypeOfSignature (checker env) sig) st2)
                  (\<lambda>retType st3. Ret (h (fst r) params retType) st3))"
      proof (rule bind_agree)
        show "convertParams tr env sig (snd r) s1 = convertParams tr' env sig (snd r) s1"
          unfolding convertParams_def ds
          by (rule convertParamsFrom_agree[OF good_seenMono[OF tg] ag c2 s1])
      next
        fix params s2 assume 2: "convertParams tr env sig (snd r) s1 = Ret params s2"
        from convertParams_seen[OF good_seenMono[OF tg] 2] s1
        have s2: "S \<subseteq> seenAnonymousTypes s2" by blast
        have "tr (getReturnTypeOfSignature (checker env) sig) s2 =
              tr' (getReturnTypeOfSignature (checker env) sig) s2"
          by (rule agreeOnD[OF ag c3 s2])
        then show "bind (tr (getReturnTypeOfSignature (checker env) sig) s2)
                  (\<lambda>retType st3. Ret (h (fst r) params retType) st3) =
              bind (tr' (getReturnTypeOfSignature (checker env) sig) s2)
                  (\<lambda>retType st3. Ret (h (fst r) params retType) st3)"
          by simp
      qed
    qed
    note main = this
    have eq: "signatureToClosure tr0 env sig st =
          bind (thisParameter tr0 env (sigParameters d) ?st0)
            (\<lambda>r st1. bind (convertParams tr0 env sig (snd r) st1)
               (\<lambda>params st2. bind (tr0 (getReturnTypeOfSignature (checker env) sig) st2)
                  (\<lambda>retType st3.
                     Ret ((\<lambda>typeStr params retType.
                             if retType \<noteq> [] then (typeStr @ join '', '' params @ '')'') @ '': '' @ retType
                             else typeStr @ join '', '' params @ '')'') (fst r) params retType)
                       st3)))" for tr0
      using Some False
      by (simp add: signatureToClosure_def case_prod_unfold Let_def)
    show ?thesis
      unfolding eq by (rule main)
  qed
qed

lemma translateConstructor_agree:
  assumes tg: "\<And>t s. good b env s (tr t s)"
    and ag: "agreeOn UNIV S tr tr'" and st: "S \<subseteq> seenAnonymousTypes st"
  shows "translateConstructor tr env ctor st = translateConstructor tr' env ctor st"
proof (cases "sigDeclaration ctor")
  case None
  then show ?thesis by (simp add: translateConstructor_def)
next
  case (Some d)
  show ?thesis
  proof (cases "sigKind d = JSDocSignature")
    case True
    with Some show ?thesis by (simp add: translateConstructor_def)
  next
    case False
    let ?st0 = "blacklistTypeParameters env (typeParameters d) st"
    have st0: "S \<subseteq> seenAnonymousTypes ?st0"
      using st by (simp add: seen_simps)
    have "bind (convertParams tr env ctor (sigParameters d) ?st0)
            (\<lambda>params st1. bind (tr (getReturnType ctor) st1) (h params)) =
          bind (convertParams tr' env ctor (sigParameters d) ?st0)
            (\<lambda>params st1. bind (tr' (getReturnType ctor) st1) (h params))" for h
    proof (rule bind_agree)
      show "convertParams tr env ctor (sigParameters d) ?st0 =
            convertParams tr' env ctor (sigParameters d) ?st0"
        unfolding convertParams_def
        by (rule convertParamsFrom_agree[OF good_seenMono[OF tg] ag _ st0]) simp
    next
      fix params s1
      assume 1: "convertParams tr env ctor (sigParameters d) ?st0 = Ret params s1"
      from convertParams_seen[OF good_seenMono[OF tg] 1] st0
      have s1: "S \<subseteq> seenAnonymousTypes s1" by blast
      have "tr (getReturnType ctor) s1 = tr' (getReturnType ctor) s1"
        by (rule agreeOnD[OF ag _ s1]) simp
      then show "bind (tr (getReturnType ctor) s1) (h params) =
                 bind (tr' (getReturnType ctor) s1) (h params)"
        by simp
    qed
    then show ?thesis
      using Some False by (simp add: translateConstructor_def Let_def)
  qed
qed

lemma fieldsLoop_agree:
  assumes tg: "\<And>t s. good b env s (tr t s)" and ag: "agreeOn UNIV S tr tr'"
  shows "S \<subseteq> seenAnonymousTypes st \<Longrightarrow>
         fieldsLoop tr env ms acc st = fieldsLoop tr' env ms acc st"
proof (induction ms arbitrary: acc st)
  case Nil
  show ?case by simp
next
  case (Cons m ms)
  obtain field mem where m: "m = (field, mem)" by (cases m)
  obtain callable indexable flds where acc: "acc = (callable, indexable, flds)"
    by (cases acc) auto
  have w: "fieldsLoop tr env ms acc' (warn msg st) = fieldsLoop tr' env ms acc' (warn msg st)"
    for acc' msg
    using Cons.IH[of "warn msg st"] Cons.prems by (simp add: seen_warn)
  have call: "bind (tr (getTypeOfSymbolAtLocation (checker env) mem) st)
                (\<lambda>memberType st1. fieldsLoop tr env ms (g memberType) st1) =
              bind (tr' (getTypeOfSymbolAtLocation (checker env) mem) st)
                (\<lambda>memberType st1. fieldsLoop tr' env ms (g memberType) st1)" for g
    by (rule bind_tr_agree[OF good_seenMono[OF tg] ag _ Cons.prems]) (simp_all add: Cons.IH)
  show ?case
    unfolding m acc using Cons.IH[OF Cons.prems] by (simp add: w call)
qed

lemma anonymousShape_agree:
  assumes tg: "\<And>t s. good b env s (tr t s)"
    and ag: "agreeOn UNIV S tr tr'" and st: "S \<subseteq> seenAnonymousTypes st"
  shows "anonymousShape tr env t callable indexable flds st =
         anonymousShape tr' env t callable indexable flds st"
proof -
  have sg: "signatureToClosure tr env sg st = signatureToClosure tr' env sg st" for sg
    by (rule signatureToClosure_agree[OF tg ag _ st]) simp
  have call: "bind (tr c st) h = bind (tr' c st) h" for c h
    by (rule bind_tr_agree[OF good_seenMono[OF tg] ag _ st]) simp_all
  show ?thesis
    unfolding anonymousShape_def Let_def
    by (intro if_agree option_agree sg call refl)
qed

lemma translateAnonymousType_agree:
  assumes tg: "\<And>t s. good b env s (tr t s)"
    and ag: "agreeOn UNIV (insert t (seenAnonymousTypes st)) tr tr'"
  shows "translateAnonymousType tr env t st = translateAnonymousType tr' env t st"
proof -
  let ?S = "insert t (seenAnonymousTypes st)"
  let ?st0 = "st\<lparr>seenAnonymousTypes := insert t (seenAnonymousTypes st)\<rparr>"
  have st0: "?S \<subseteq> seenAnonymousTypes ?st0" by simp
  have ctor: "translateConstructor tr env c ?st0 = translateConstructor tr' env c ?st0" for c
    by (rule translateConstructor_agree[OF tg ag st0])
  have loop: "bind (fieldsLoop tr env ms (False, False, []) ?st0)
                (\<lambda>r st1. anonymousShape tr env t (fst r) (fst (snd r)) (snd (snd r)) st1) =
              bind (fieldsLoop tr' env ms (False, False, []) ?st0)
                (\<lambda>r st1. anonymousShape tr' env t (fst r) (fst (snd r)) (snd (snd r)) st1)"
    for ms
  proof (rule bind_agree)
    show "fieldsLoop tr env ms (False, False, []) ?st0 =
          fieldsLoop tr' env ms (False, False, []) ?st0"
      by (rule fieldsLoop_agree[OF tg ag st0])
  next
    fix r s1 assume 1: "fieldsLoop tr env ms (False, False, []) ?st0 = Ret r s1"
    have "good b env ?st0 (fieldsLoop tr env ms (False, False, []) ?st0)"
      by (rule fieldsLoop_good[OF tg])
    then have "good b env ?st0 (Ret r s1)" by (simp only: 1)
    then have s1: "?S \<subseteq> seenAnonymousTypes s1" using st0 by (rule good_RetD)
    show "anonymousShape tr env t (fst r) (fst (snd r)) (snd (snd r)) s1 =
          anonymousShape tr' env t (fst r) (fst (snd r)) (snd (snd r)) s1"
      by (rule anonymousShape_agree[OF tg ag s1])
  qed
  show ?thesis
    unfolding translateAnonymousType_def Let_def case_prod_unfold
    by (simp add: ctor loop split: option.splits list.splits)
qed

lemma translateReference_agree:
  assumes tg: "\<And>t s. good b env s (tr t s)"
    and ag: "agreeOn C S tr tr'" and st: "S \<subseteq> seenAnonymousTypes st"
    and sub: "\<not> hasFlag (objectFlags (typeOf env (target (typeOf env t)))) ObjectFlags_Tuple \<Longrightarrow>
              insert (target (typeOf env t))
                (set (case typeArguments (typeOf env t) of None \<Rightarrow> [] | Some args \<Rightarrow> args)) \<subseteq> C"
  shows "translateReference tr env t st = translateReference tr' env t st"
proof (cases "hasFlag (objectFlags (typeOf env (target (typeOf env t)))) ObjectFlags_Tuple")
  case True
  then show ?thesis by (simp add: translateReference_def)
next
  case False
  note sub' = sub[OF False]
  have args: "translateAll tr as s = translateAll tr' as s"
    if "typeArguments (typeOf env t) = Some as" "S \<subseteq> seenAnonymousTypes s" for as s
    using sub' that(1) by (intro translateAll_agree[OF good_seenMono[OF tg] ag _ that(2)]) simp
  have "bind (tr (target (typeOf env t)) st)
          (\<lambda>typeStr st1. if typeStr = ''?'' then Ret ''?'' st1
             else (case typeArguments (typeOf env t) of None \<Rightarrow> Ret typeStr st1
                   | Some as \<Rightarrow> bind (translateAll tr as st1) (h typeStr))) =
        bind (tr' (target (typeOf env t)) st)
          (\<lambda>typeStr st1. if typeStr = ''?'' then Ret ''?'' st1
             else (case typeArguments (typeOf env t) of None \<Rightarrow> Ret typeStr st1
                   | Some as \<Rightarrow> bind (translateAll tr' as st1) (h typeStr)))" for h
    by (rule bind_tr_agree[OF good_seenMono[OF tg] ag _ st])
      (use sub' in \<open>simp_all add: args split: option.splits\<close>)
  then show ?thesis
    using False by (simp add: translateReference_def Let_def)
qed

lemma translateUnion_agree:
  assumes tg: "\<And>t s. good b env s (tr t s)"
    and ag: "agreeOn C S tr tr'" and st: "S \<subseteq> seenAnonymousTypes st"
    and sub: "set (types (typeOf env t)) \<subseteq> C"
  shows "translateUnion tr env t st = translateUnion tr' env t st"
  by (simp add: translateUnion_def translateAll_agree[OF good_seenMono[OF tg] ag sub st])

lemma translateObject_agree:
  assumes tg: "\<And>t s. good b env s (tr t s)"
    and obj: "typeFlags (typeOf env t) AND flagMask = TypeFlags_Object"
    and ch: "agreeOn (set (children env t)) (seenAnonymousTypes st) tr tr'"
    and gd: "guarded env t \<Longrightarrow> agreeOn UNIV (insert t (seenAnonymousTypes st)) tr tr'"
  shows "translateObject tr env t st = translateObject tr' env t st"
proof -
  let ?ty = "typeOf env t"
  note ch' = ch[unfolded children_def Let_def obj if_True]
  show ?thesis
  proof (cases "case symbol ?ty of None \<Rightarrow> False | Some s \<Rightarrow> isBlackListed env s")
    case True
    then show ?thesis by (simp add: translateObject_def)
  next
    case nb: False
    show ?thesis
    proof (cases "hasFlag (objectFlags ?ty) ObjectFlags_Class")
      case True
      with nb show ?thesis by (simp add: translateObject_def)
    next
      case nc: False
      show ?thesis
      proof (cases "hasFlag (objectFlags ?ty) ObjectFlags_Interface")
        case True
        with nb nc show ?thesis by (simp add: translateObject_def)
      next
        case ni: False
        show ?thesis
        proof (cases "hasFlag (objectFlags ?ty) ObjectFlags_Reference")
          case True
          have "translateReference tr env t st = translateReference tr' env t st"
            by (rule translateReference_agree[OF tg ch' subset_refl])
              (use nb nc ni True in \<open>auto simp: objectChildren_def Let_def split: option.splits\<close>)
          with nb nc ni True show ?thesis by (simp add: translateObject_def)
        next
          case nr: False
          show ?thesis
          proof (cases "hasFlag (objectFlags ?ty) ObjectFlags_Anonymous")
            case False
            with nb nc ni nr show ?thesis by (simp add: translateObject_def)
          next
            case an: True
            show ?thesis
            proof (cases "symbol ?ty")
              case None
              with nb nc ni nr an show ?thesis by (simp add: translateObject_def)
            next
              case (Some s)
              show ?thesis
              proof (cases "hasFlag (symFlags (symbolOf env s)) SymbolFlags_Function \<or>
                  hasFlag (symFlags (symbolOf env s)) SymbolFlags_Method")
                case fn: True
                show ?thesis
                proof (cases "length (getSignaturesOfType (checker env) t) = 1")
                  case False
                  with nb nc ni nr an Some fn show ?thesis
                    by (simp add: translateObject_def Let_def)
                next
                  case one: True
                  have "signatureToClosure tr env (getSignaturesOfType (checker env) t ! 0) st =
                        signatureToClosure tr' env (getSignaturesOfType (checker env) t ! 0) st"
                    by (rule signatureToClosure_agree[OF tg ch' _ subset_refl])
                      (use nb nc ni nr an Some fn one in \<open>simp add: objectChildren_def Let_def\<close>)
                  with nb nc ni nr an Some fn one show ?thesis
                    by (simp add: translateObject_def Let_def)
                qed
              next
                case nf: False
                have "guarded env t"
                  using obj nb nc ni nr an Some nf by (simp add: guarded_def)
                from translateAnonymousType_agree[OF tg gd[OF this]]
                show ?thesis
                  using nb nc ni nr an Some nf by (simp add: translateObject_def)
              qed
            qed
          qed
        qed
      qed
    qed
  qed
qed

lemma masked_union_hasFlag:
  assumes "fl AND flagMask = TypeFlags_Union"
  shows "hasFlag fl TypeFlags_Union"
proof -
  have "fl AND TypeFlags_Union = (fl AND flagMask) AND TypeFlags_Union"
    by (simp add: and.assoc flagMask_def TypeFlags_Substitution_def TypeFlags_Union_def)
  also have "\<dots> = TypeFlags_Union" by (simp add: assms)
  finally show ?thesis by (simp add: hasFlag_def TypeFlags_Union_def)
qed

lemma dispatch_agree:
  assumes tg: "\<And>t s. good b env s (tr t s)"
    and ch: "agreeOn (set (children env t)) (seenAnonymousTypes st) tr tr'"
    and gd: "guarded env t \<Longrightarrow> agreeOn UNIV (insert t (seenAnonymousTypes st)) tr tr'"
  shows "dispatch tr env t st = dispatch tr' env t st"
proof -
  have obj: "translateObject tr env t st = translateObject tr' env t st"
    if "typeFlags (typeOf env t) AND flagMask = TypeFlags_Object"
    by (rule translateObject_agree[OF tg that ch gd])
  have un: "translateUnion tr env t st = translateUnion tr' env t st"
    if "typeFlags (typeOf env t) AND flagMask \<noteq> TypeFlags_Object"
      "hasFlag (typeFlags (typeOf env t)) TypeFlags_Union"
    by (rule translateUnion_agree[OF tg ch subset_refl])
      (use that in \<open>simp add: children_def\<close>)
  have un': "translateUnion tr env t st = translateUnion tr' env t st"
    if "typeFlags (typeOf env t) AND flagMask = TypeFlags_Union"
    by (rule un) (use that masked_union_hasFlag[OF that] in
        \<open>simp_all add: TypeFlags_Union_def TypeFlags_Object_def\<close>)
  show ?thesis
    unfolding dispatch_def Let_def
    by (intro if_agree refl obj un un') simp_all
qed

lemma translateBody_agree:
  assumes tg: "\<And>t s. good b env s (tr t s)"
    and ch: "agreeOn (set (children env t)) (seenAnonymousTypes st) tr tr'"
    and gd: "guarded env t \<Longrightarrow> agreeOn UNIV (insert t (seenAnonymousTypes st)) tr tr'"
  shows "translateBody tr env t st = translateBody tr' env t st"
  unfolding translateBody_def Let_def case_prod_unfold
  by (intro if_agree refl dispatch_agree[OF tg ch gd])

section \<open>The recursion set and termination\<close>

lemma guarded_children: "guarded env t \<Longrightarrow> children env t = []"
  by (auto simp: guarded_def children_def objectChildren_def Let_def split: option.splits)

lemma fuel_same_level:
  assumes "finite G" and "S \<subseteq> S'" and "rc < (rt::nat)"
    and "card (G - S) * Suc R + rt + 1 \<le> Suc n"
  shows "card (G - S') * Suc R + rc + 1 \<le> n"
proof -
  have "G - S' \<subseteq> G - S" using assms(2) by blast
  then have "card (G - S') \<le> card (G - S)"
    using assms(1) by (intro card_mono) auto
  then have "card (G - S') * Suc R \<le> card (G - S) * Suc R"
    by (rule mult_le_mono1)
  with assms(3,4) show ?thesis by linarith
qed

lemma fuel_next_level:
  assumes "finite G" and "insert t S \<subseteq> S'" and "t \<in> G" and "t \<notin> S" and "rc \<le> (R::nat)"
    and "card (G - S) * Suc R + rt + 1 \<le> Suc n"
  shows "card (G - S') * Suc R + rc + 1 \<le> n"
proof -
  have "G - S' \<subset> G - S" using assms(2,3,4) by blast
  then have "card (G - S') < card (G - S)"
    using assms(1) by (intro psubset_card_mono) auto
  then have "Suc (card (G - S')) * Suc R \<le> card (G - S) * Suc R"
    by (intro mult_le_mono1) simp
  with assms(5,6) show ?thesis by simp
qed

lemma translate_enough_fuel:
  assumes fin: "finite {u. guarded env u}"
    and bound: "\<And>u. rank u \<le> R"
    and dec: "\<And>u c. \<not> guarded env u \<Longrightarrow> c \<in> set (children env u) \<Longrightarrow> rank c < rank u"
  shows "fuelNeeded env rank R st t \<le> n \<Longrightarrow> translate n env t st \<noteq> OutOfFuel"
proof (induction n arbitrary: t st)
  case 0
  then show ?case by (simp add: fuelNeeded_def)
next
  case (Suc n)
  define tr' where
    "tr' = (\<lambda>c s. if fuelNeeded env rank R s c \<le> n then translate n env c s else Ret [] s)"
  have tg: "good False env s (translate n env c s)" for c s
    by (rule translate_good)
  have tg': "good True env s (tr' c s)" for c s
  proof (cases "fuelNeeded env rank R s c \<le> n")
    case True
    from good_total_intro[OF tg Suc.IH[OF True]] True show ?thesis by (simp add: tr'_def)
  next
    case False
    then show ?thesis by (simp add: tr'_def good_Ret)
  qed
  show ?case
  proof (cases "t \<in> seenAnonymousTypes st")
    case True
    then show ?thesis by (simp add: translateBody_def Let_def)
  next
    case False
    have ch: "agreeOn (set (children env t)) (seenAnonymousTypes st) (translate n env) tr'"
      unfolding agreeOn_def
    proof (intro ballI allI impI)
      fix c and s :: state assume c: "c \<in> set (children env t)"
        and s: "seenAnonymousTypes st \<subseteq> seenAnonymousTypes s"
      from c guarded_children have ng: "\<not> guarded env t" by fastforce
      have "fuelNeeded env rank R s c \<le> n"
        unfolding fuelNeeded_def
        by (rule fuel_same_level[OF fin s dec[OF ng c]])
          (use Suc.prems in \<open>simp add: fuelNeeded_def\<close>)
      then show "translate n env c s = tr' c s" by (simp add: tr'_def)
    qed
    have gd: "agreeOn UNIV (insert t (seenAnonymousTypes st)) (translate n env) tr'"
      if g: "guarded env t"
      unfolding agreeOn_def
    proof (intro ballI allI impI)
      fix c and s :: state
      assume s: "insert t (seenAnonymousTypes st) \<subseteq> seenAnonymousTypes s"
      have "fuelNeeded env rank R s c \<le> n"
        unfolding fuelNeeded_def
        by (rule fuel_next_level[OF fin s _ False bound])
          (use g Suc.prems in \<open>simp_all add: fuelNeeded_def\<close>)
      then show "translate n env c s = tr' c s" by (simp add: tr'_def)
    qed
    have "translateBody (translate n env) env t st = translateBody tr' env t st"
      by (rule translateBody_agree[OF tg ch gd])
    moreover have "translateBody tr' env t st \<noteq> OutOfFuel"
      by (rule good_total_returns[OF translateBody_good[OF tg']])
    ultimately show ?thesis by simp
  qed
qed

text \<open>
  What the recursion set achieves. A type that is in the recursion set when \<open>translate\<close>
  is entered, and whose flags are not exactly \<open>NonPrimitive\<close>, translates to \<open>?\<close> with the
  state unchanged, whatever the fuel. \<open>translateAnonymousType\<close> enters its type into the
  set before it descends: every call of \<open>translate\<close> it makes sees the type in the set.
  And when every cycle of the types passes through a guarded type (the types that are
  not guarded have a bounded rank that decreases to their children) and the guarded
  types are finitely many, \<open>translate\<close> ends: it does not run out of \<open>fuelNeeded\<close>.
\<close>

lemma translate_recursion_guard:
  "(t \<in> seenAnonymousTypes st \<and> typeFlags (typeOf env t) \<noteq> TypeFlags_NonPrimitive \<longrightarrow>
      translate (Suc n) env t st = Ret ''?'' st) \<and>
   translateAnonymousType (translate n env) env t st =
     translateAnonymousType
       (\<lambda>u s. if t \<in> seenAnonymousTypes s then translate n env u s else OutOfFuel) env t st \<and>
   (finite {u. guarded env u} \<and> (\<forall>u. rank u \<le> R) \<and>
    (\<forall>u c. \<not> guarded env u \<longrightarrow> c \<in> set (children env u) \<longrightarrow> rank c < rank u) \<longrightarrow>
      translate (fuelNeeded env rank R st t + n) env t st \<noteq> OutOfFuel)"
proof (intro conjI impI)
  assume "t \<in> seenAnonymousTypes st \<and> typeFlags (typeOf env t) \<noteq> TypeFlags_NonPrimitive"
  then show "translate (Suc n) env t st = Ret ''?'' st"
    by (simp add: translateBody_seen)
next
  have "agreeOn UNIV (insert t (seenAnonymousTypes st)) (translate n env)
          (\<lambda>u s. if t \<in> seenAnonymousTypes s then translate n env u s else OutOfFuel)"
    by (auto simp: agreeOn_def)
  then show "translateAnonymousType (translate n env) env t st =
     translateAnonymousType
       (\<lambda>u s. if t \<in> seenAnonymousTypes s then translate n env u s else OutOfFuel) env t st"
    by (rule translateAnonymousType_agree[OF translate_good])
next
  assume a: "finite {u. guarded env u} \<and> (\<forall>u. rank u \<le> R) \<and>
    (\<forall>u c. \<not> guarded env u \<longrightarrow> c \<in> set (children env u) \<longrightarrow> rank c < rank u)"
  show "translate (fuelNeeded env rank R st t + n) env t st \<noteq> OutOfFuel"
  proof (rule translate_enough_fuel[where rank = rank and R = R])
    show "finite {u. guarded env u}" using a by simp
    show "rank u \<le> R" for u using a by simp
    show "rank c < rank u" if "\<not> guarded env u" "c \<in> set (children env u)" for u c
      using a that by blast
    show "fuelNeeded env rank R st t \<le> fuelNeeded env rank R st t + n" by simp
  qed
qed

lemma guarded_recEnv: "{u. guarded recEnv u} = {0}"
  by (auto simp: guarded_def recEnv_def recTypes_def recSymbols_def literalType_def example_defs
      flagMask_eq typeFlag_defs otherFlag_defs translate_defs)

lemma translate_recEnv:
  "translate (Suc (Suc 0)) recEnv 0 exState = Ret ''{next: ?}'' (exState\<lparr>seenAnonymousTypes := {0}\<rparr>)"
  by (simp add: recEnv_def recTypes_def recSymbols_def literalType_def
      example_defs flagMask_eq typeFlag_defs otherFlag_defs translate_defs)

lemma children_recEnv: "\<not> guarded recEnv u \<Longrightarrow> children recEnv u = []"
  using guarded_recEnv
  by (auto simp: children_def recEnv_def recTypes_def example_defs flagMask_eq typeFlag_defs
      hasFlag_def)

lemma fuelNeeded_recEnv: "fuelNeeded recEnv (\<lambda>u. 0) 0 exState 0 = Suc (Suc 0)"
  by (simp add: fuelNeeded_def guarded_recEnv exState_def)

lemma translate_recursion_guard_example:
  "translate (Suc 0) recEnv 0 (exState\<lparr>seenAnonymousTypes := {0}\<rparr>) =
     Ret ''?'' (exState\<lparr>seenAnonymousTypes := {0}\<rparr>) \<and>
   translate (Suc (Suc 0)) recEnv 0 exState \<noteq> OutOfFuel \<and>
   translate (Suc (Suc 0)) recEnv 0 exState =
     Ret ''{next: ?}'' (exState\<lparr>seenAnonymousTypes := {0}\<rparr>)"
proof -
  note main = translate_recursion_guard[where env = recEnv and t = 0 and n = 0
      and rank = "\<lambda>u. 0" and R = 0]
  have flags: "typeFlags (typeOf recEnv 0) \<noteq> TypeFlags_NonPrimitive"
    by (simp add: recEnv_def recTypes_def literalType_def example_defs typeFlag_defs)
  have hyp: "finite {u. guarded recEnv u} \<and> (\<forall>u. (0::nat) \<le> 0) \<and>
      (\<forall>u c. \<not> guarded recEnv u \<longrightarrow> c \<in> set (children recEnv u) \<longrightarrow> (0::nat) < 0)"
    by (simp add: guarded_recEnv children_recEnv)
  from main[where st = "exState\<lparr>seenAnonymousTypes := {0}\<rparr>"] flags
  have 1: "translate (Suc 0) recEnv 0 (exState\<lparr>seenAnonymousTypes := {0}\<rparr>) =
     Ret ''?'' (exState\<lparr>seenAnonymousTypes := {0}\<rparr>)"
    by simp
  from main[where st = exState] hyp
  have 2: "translate (Suc (Suc 0)) recEnv 0 exState \<noteq> OutOfFuel"
    by (simp add: fuelNeeded_recEnv)
  from 1 2 translate_recEnv show ?thesis by simp
qed

text \<open>
  The type of a function declaration is translated by \<open>signatureToClosure\<close> without
  being entered into the recursion set: on \<open>typeof f\<close>, with \<open>f\<close> declared as
  \<open>function f(): typeof f\<close>, every call of \<open>translate\<close> calls \<open>translate\<close> on the same
  type again.
\<close>

lemma translateBody_loop_function:
  "1 \<notin> seenAnonymousTypes st \<Longrightarrow> tr 1 st = OutOfFuel \<Longrightarrow>
   translateBody tr loopEnv 1 st = OutOfFuel"
  by (simp add: loopEnv_def loopTypes_def loopSymbols_def loopSig_def literalType_def
      example_defs flagMask_eq typeFlag_defs otherFlag_defs translate_defs)

lemma translate_loop_function:
  "1 \<notin> seenAnonymousTypes st \<Longrightarrow> translate n loopEnv 1 st = OutOfFuel"
proof (induction n)
  case 0
  show ?case by simp
next
  case (Suc n)
  from translateBody_loop_function[where tr = "translate n loopEnv",
      OF Suc.prems Suc.IH[OF Suc.prems]]
  show ?case by (simp only: translate.simps)
qed

lemma translateBody_loop_literal:
  "(\<And>st. 1 \<notin> seenAnonymousTypes st \<Longrightarrow> tr 1 st = OutOfFuel) \<Longrightarrow>
   tr 0 (exState\<lparr>seenAnonymousTypes := {0}\<rparr>) = OutOfFuel \<or>
   (\<exists>v. tr 0 (exState\<lparr>seenAnonymousTypes := {0}\<rparr>) =
           Ret v (exState\<lparr>seenAnonymousTypes := {0}\<rparr>)) \<Longrightarrow>
   translateBody tr loopEnv 0 exState = OutOfFuel"
  by (auto simp: loopEnv_def loopTypes_def loopSymbols_def loopSig_def literalType_def
      example_defs flagMask_eq typeFlag_defs otherFlag_defs translate_defs)

text \<open>
  Claim C1 says that \<open>translate\<close> ends on every type with a recursive anonymous member.
  The code at the type literal \<open>T = {self: T, f: typeof f}\<close>, with \<open>f\<close> declared as
  \<open>function f(): typeof f\<close>: \<open>T\<close> is entered into the recursion set and its member
  \<open>self\<close> translates to \<open>?\<close>, but the translation of its member \<open>f\<close> does not return
  with any fuel. The recursion is unbounded, and the program ends with the \<open>RangeError\<close>
  of an exhausted call stack.
\<close>

theorem translate_function_type_recursion:
  "guarded loopEnv 0 \<and>
   members (symbolOf loopEnv 1) = Some [(''self'', 2), (''f'', 3)] \<and>
   getTypeOfSymbolAtLocation (checker loopEnv) 2 = 0 \<and>
   translate (Suc 0) loopEnv 0 (exState\<lparr>seenAnonymousTypes := {0}\<rparr>) =
     Ret ''?'' (exState\<lparr>seenAnonymousTypes := {0}\<rparr>) \<and>
   (\<forall>n. translate n loopEnv 0 exState = OutOfFuel)"
proof -
  have g: "guarded loopEnv 0"
    by (simp add: guarded_def loopEnv_def loopTypes_def loopSymbols_def literalType_def
        example_defs flagMask_eq typeFlag_defs otherFlag_defs translate_defs)
  have m: "members (symbolOf loopEnv 1) = Some [(''self'', 2), (''f'', 3)]"
    "getTypeOfSymbolAtLocation (checker loopEnv) 2 = 0"
    by (simp_all add: loopEnv_def loopSymbols_def example_defs)
  have flags: "typeFlags (typeOf loopEnv 0) \<noteq> TypeFlags_NonPrimitive"
    by (simp add: loopEnv_def loopTypes_def literalType_def example_defs typeFlag_defs)
  have "translate n loopEnv 0 exState = OutOfFuel" for n
  proof (cases n)
    case 0
    then show ?thesis by simp
  next
    case (Suc k)
    have self: "translate k loopEnv 0 (exState\<lparr>seenAnonymousTypes := {0}\<rparr>) = OutOfFuel \<or>
        (\<exists>v. translate k loopEnv 0 (exState\<lparr>seenAnonymousTypes := {0}\<rparr>) =
               Ret v (exState\<lparr>seenAnonymousTypes := {0}\<rparr>))"
    proof (cases k)
      case 0
      then show ?thesis by simp
    next
      case (Suc j)
      have "translateBody (translate j loopEnv) loopEnv 0 (exState\<lparr>seenAnonymousTypes := {0}\<rparr>) =
            Ret ''?'' (exState\<lparr>seenAnonymousTypes := {0}\<rparr>)"
        by (rule translateBody_seen[OF _ flags]) simp
      with Suc show ?thesis by simp
    qed
    show ?thesis
      unfolding Suc translate.simps
      by (rule translateBody_loop_literal[where tr = "translate k loopEnv",
            OF translate_loop_function self])
  qed
  moreover have "translate (Suc 0) loopEnv 0 (exState\<lparr>seenAnonymousTypes := {0}\<rparr>) =
     Ret ''?'' (exState\<lparr>seenAnonymousTypes := {0}\<rparr>)"
    unfolding translate.simps by (rule translateBody_seen[OF _ flags]) simp
  ultimately show ?thesis using g m by simp
qed

section \<open>The unknown sentinel and type arguments\<close>

text \<open>A reference whose target translates to exactly \<open>?\<close> is \<open>?\<close>: the type arguments
  are not appended.\<close>

lemma translateReference_unknown:
  assumes "\<not> hasFlag (objectFlags (typeOf env (target (typeOf env t)))) ObjectFlags_Tuple"
    and "target (typeOf env t) \<noteq> t"
    and "tr (target (typeOf env t)) st = Ret ''?'' st1"
  shows "translateReference tr env t st = Ret ''?'' st1"
  using assms by (simp add: translateReference_def bind_def Let_def)

text \<open>
  Claim C5 says that no output contains \<open>?<\<close>. The code at \<open>Foo<number>\<close> when the alias
  scope maps the class \<open>Foo\<close> to \<open>?\<close>: the target translates to \<open>!?\<close>, which is not \<open>?\<close>, and
  the type arguments are appended.
\<close>

theorem translate_reference_aliased_unknown:
  "translate (Suc (Suc 0)) genericEnv 0 (aliasState ''?'') = Ret ''!?<number>'' (aliasState ''?'') \<and>
   containsSubstring ''!?<number>'' ''?<''"
  by (simp add: genericEnv_def genericTypes_def aliasSymbols_def aliasState_def
      containsSubstring_def example_defs flagMask_eq typeFlag_defs otherFlag_defs translate_defs)

end
